theory Spec2Isabelle
  imports Main "HOL-Library.List_Lexorder"
begin

section \<open>Python strings\<close>

text \<open>
  A Python \<^verbatim>\<open>str\<close> is a sequence of Unicode code points. The daily-plan documents are
  Chinese text with emoji, and both \<^verbatim>\<open>str.strip()\<close> and the regular expression class
  \<^verbatim>\<open>\s\<close> classify code points (U+3000, the ideographic space, is whitespace), so a
  string is modelled as the list of its code points. \<open>str\<close> embeds an ASCII literal.
\<close>

type_synonym ustr = "nat list"

definition str :: "string \<Rightarrow> ustr" where
  "str s = map of_char s"

text \<open>
  The code points for which CPython's \<^verbatim>\<open>Py_UNICODE_ISSPACE\<close> holds. \<^verbatim>\<open>str.strip()\<close>
  without argument and \<^verbatim>\<open>\s\<close> in a \<^verbatim>\<open>str\<close> pattern both use it.
\<close>

definition is_space :: "nat \<Rightarrow> bool" where
  "is_space c \<longleftrightarrow>
     (0x09 \<le> c \<and> c \<le> 0x0D) \<or> (0x1C \<le> c \<and> c \<le> 0x20) \<or> c = 0x85 \<or> c = 0xA0 \<or>
     c = 0x1680 \<or> (0x2000 \<le> c \<and> c \<le> 0x200A) \<or> c = 0x2028 \<or> c = 0x2029 \<or>
     c = 0x202F \<or> c = 0x205F \<or> c = 0x3000"

text \<open>The line boundaries of \<^verbatim>\<open>str.splitlines()\<close>.\<close>

definition is_linebreak :: "nat \<Rightarrow> bool" where
  "is_linebreak c \<longleftrightarrow>
     (0x0A \<le> c \<and> c \<le> 0x0D) \<or> (0x1C \<le> c \<and> c \<le> 0x1E) \<or> c = 0x85 \<or>
     c = 0x2028 \<or> c = 0x2029"

text \<open>\<^verbatim>\<open>s.strip()\<close>, \<^verbatim>\<open>s.lstrip('#')\<close>, \<^verbatim>\<open>s.startswith(p)\<close>, \<^verbatim>\<open>s.endswith(p)\<close>.\<close>

definition strip :: "ustr \<Rightarrow> ustr" where
  "strip s = rev (dropWhile is_space (rev (dropWhile is_space s)))"

definition lstrip_hash :: "ustr \<Rightarrow> ustr" where
  "lstrip_hash s = dropWhile (\<lambda>c. c = 0x23) s"

definition startswith :: "ustr \<Rightarrow> ustr \<Rightarrow> bool" where
  "startswith s p \<longleftrightarrow> take (length p) s = p"

definition endswith :: "ustr \<Rightarrow> ustr \<Rightarrow> bool" where
  "endswith s p \<longleftrightarrow> length p \<le> length s \<and> drop (length s - length p) s = p"

text \<open>
  \<^verbatim>\<open>s.splitlines()\<close>: the text is cut at every line boundary, \<^verbatim>\<open>\r\n\<close> counting as
  one, and a boundary at the very end opens no further line. \<open>cur\<close> is the line being
  read.
\<close>

fun splitlines_from :: "ustr \<Rightarrow> ustr \<Rightarrow> ustr list" where
  "splitlines_from cur [] = (if cur = [] then [] else [cur])"
| "splitlines_from cur [c] =
     (if is_linebreak c then [cur] else [cur @ [c]])"
| "splitlines_from cur (c # d # s) =
     (if c = 0x0D \<and> d = 0x0A then cur # splitlines_from [] s
      else if is_linebreak c then cur # splitlines_from [] (d # s)
      else splitlines_from (cur @ [c]) (d # s))"

definition splitlines :: "ustr \<Rightarrow> ustr list" where
  "splitlines s = splitlines_from [] s"

text \<open>\<^verbatim>\<open>'\n'.join(lines)\<close>.\<close>

fun join_nl :: "ustr list \<Rightarrow> ustr" where
  "join_nl [] = []"
| "join_nl [x] = x"
| "join_nl (x # y # ys) = x @ [0x0A] @ join_nl (y # ys)"

section \<open>The status table\<close>

text \<open>
  \<^verbatim>\<open>TASK_STATUS_MAP\<close> is a dict literal; \<^verbatim>\<open>STATUS_TO_MARK\<close> is built from it by the
  comprehension \<^verbatim>\<open>{v: k for k, v in TASK_STATUS_MAP.items()}\<close>, where a later item
  overwrites an earlier one with the same key. A dict is an association list whose first
  entry for a key is the one looked up, so the comprehension puts every new item in front.
\<close>

definition TASK_STATUS_MAP :: "(ustr \<times> ustr) list" where
  "TASK_STATUS_MAP =
     [(str ''[ ]'', str ''todo''),
      (str ''[x]'', str ''done''),
      (str ''[~]'', str ''partial''),
      (str ''[!]'', str ''cancelled''),
      (str ''[>]'', str ''in_progress''),
      (str ''[?]'', str ''need_help'')]"

definition STATUS_TO_MARK :: "(ustr \<times> ustr) list" where
  "STATUS_TO_MARK = fold (\<lambda>(k, v) d. (v, k) # d) TASK_STATUS_MAP []"

text \<open>\<^verbatim>\<open>d.get(key, default)\<close>.\<close>

definition dict_get :: "('k \<times> 'v) list \<Rightarrow> 'k \<Rightarrow> 'v \<Rightarrow> 'v" where
  "dict_get d k dflt = (case map_of d k of Some v \<Rightarrow> v | None \<Rightarrow> dflt)"

text \<open>
  \<^verbatim>\<open>mark.lower()\<close> on a status mark. The only cased character a mark can hold is
  \<^verbatim>\<open>X\<close>; \<open>lower\<close> maps the ASCII capitals, which is all the marks need.
\<close>

definition lower_char :: "nat \<Rightarrow> nat" where
  "lower_char c = (if 0x41 \<le> c \<and> c \<le> 0x5A then c + 0x20 else c)"

definition lower :: "ustr \<Rightarrow> ustr" where
  "lower s = map lower_char s"

text \<open>The two lookups the program makes: \<^verbatim>\<open>TASK_STATUS_MAP.get(mark.lower(), 'todo')\<close> in
  the scanners and \<^verbatim>\<open>STATUS_TO_MARK.get(status, '[ ]')\<close> in the writers.\<close>

definition status_for :: "ustr \<Rightarrow> ustr" where
  "status_for mark = dict_get TASK_STATUS_MAP (lower mark) (str ''todo'')"

definition mark_for :: "ustr \<Rightarrow> ustr" where
  "mark_for status = dict_get STATUS_TO_MARK status (str ''[ ]'')"

section \<open>The patterns\<close>

text \<open>
  The patterns are used with \<^verbatim>\<open>re.match\<close>, which anchors at the start of the string.
  \<^verbatim>\<open>H1_RE = ^#\s+\<close>, \<^verbatim>\<open>H2_RE = ^##\s+\<close>, \<^verbatim>\<open>H3_RE = ^###\s+\<close>: the hashes and at
  least one whitespace character after them.
\<close>

definition H1_RE :: "ustr \<Rightarrow> bool" where
  "H1_RE s = (case s of a # b # _ \<Rightarrow> a = 0x23 \<and> is_space b | _ \<Rightarrow> False)"

definition H2_RE :: "ustr \<Rightarrow> bool" where
  "H2_RE s = (case s of a # b # c # _ \<Rightarrow> a = 0x23 \<and> b = 0x23 \<and> is_space c | _ \<Rightarrow> False)"

definition H3_RE :: "ustr \<Rightarrow> bool" where
  "H3_RE s =
     (case s of a # b # c # d # _ \<Rightarrow> a = 0x23 \<and> b = 0x23 \<and> c = 0x23 \<and> is_space d
      | _ \<Rightarrow> False)"

text \<open>
  \<^verbatim>\<open>TASK_MARK_RE = ^\s*-\s*(\[(?: |x|~|!|>|\?)\])\s*(.*)$\<close> with \<^verbatim>\<open>re.IGNORECASE\<close>.
  The result is \<open>None\<close> when \<^verbatim>\<open>match\<close> returns \<^verbatim>\<open>None\<close>, and otherwise the two
  groups. Each \<^verbatim>\<open>\s*\<close> is followed by a character that is no whitespace (the dash,
  the bracket) or by \<^verbatim>\<open>.*\<close>, which cannot pass a newline that the \<^verbatim>\<open>\s*\<close> left
  behind, so the greedy choice is the only one that can match. \<^verbatim>\<open>.\<close> is every
  character but \<^verbatim>\<open>\n\<close>, and \<^verbatim>\<open>$\<close> holds at the end of the string and before a
  newline that ends it. Ignoring case adds \<^verbatim>\<open>X\<close> to the marks.
\<close>

definition is_mark_char :: "nat \<Rightarrow> bool" where
  "is_mark_char c \<longleftrightarrow>
     c = 0x20 \<or> c = 0x78 \<or> c = 0x58 \<or> c = 0x7E \<or> c = 0x21 \<or> c = 0x3E \<or> c = 0x3F"

definition TASK_MARK_RE :: "ustr \<Rightarrow> (ustr \<times> ustr) option" where
  "TASK_MARK_RE s =
     (case dropWhile is_space s of
        dash # r1 \<Rightarrow>
          if dash = 0x2D then
            (case dropWhile is_space r1 of
               lb # m # rb # r2 \<Rightarrow>
                 if lb = 0x5B \<and> is_mark_char m \<and> rb = 0x5D then
                   (let r3 = dropWhile is_space r2;
                        body = takeWhile (\<lambda>c. c \<noteq> 0x0A) r3;
                        rest = dropWhile (\<lambda>c. c \<noteq> 0x0A) r3
                    in if rest = [] \<or> rest = [0x0A] then Some ([lb, m, rb], body) else None)
                 else None
             | _ \<Rightarrow> None)
          else None
      | [] \<Rightarrow> None)"

section \<open>Lists and errors\<close>

text \<open>
  The exceptions a list access, a method call on \<^verbatim>\<open>None\<close> and \<^verbatim>\<open>open\<close> can raise.
  \<open>py_get\<close> is \<^verbatim>\<open>xs[i]\<close>, \<open>py_insert\<close> is \<^verbatim>\<open>xs.insert(i, x)\<close>: a negative index
  counts from the end, and \<^verbatim>\<open>insert\<close> clips the index to the list instead of raising.
\<close>

datatype py_error = IndexError | AttributeError | FileNotFoundError

definition py_get :: "'a list \<Rightarrow> int \<Rightarrow> py_error + 'a" where
  "py_get xs i =
     (if 0 \<le> i \<and> i < int (length xs) then Inr (xs ! nat i)
      else if i < 0 \<and> - int (length xs) \<le> i then Inr (xs ! nat (int (length xs) + i))
      else Inl IndexError)"

definition py_insert :: "'a list \<Rightarrow> int \<Rightarrow> 'a \<Rightarrow> 'a list" where
  "py_insert xs i x =
     (let n = int (length xs); j = (if i < 0 then max 0 (n + i) else min i n)
      in take (nat j) xs @ [x] @ drop (nat j) xs)"

section \<open>Sections and tasks\<close>

record Section =
  title :: ustr
  start :: int
  end_idx :: int

record TaskItem =
  line_index :: int
  raw :: ustr
  status_mark :: ustr
  status :: ustr
  task_text :: ustr
  task_section :: ustr
  task_subsection :: "ustr option"

text \<open>\<^verbatim>\<open>line.strip().lstrip('#').strip()\<close>, the title of a heading line.\<close>

definition heading_title :: "ustr \<Rightarrow> ustr" where
  "heading_title line = strip (lstrip_hash (strip line))"

text \<open>
  \<^verbatim>\<open>_parse_sections\<close>. The loop runs over \<^verbatim>\<open>enumerate(lines)\<close> with the list of
  closed sections and the open one; \<open>n\<close> is \<^verbatim>\<open>len(lines)\<close> and \<open>i\<close> the index of the
  head of the remaining lines. After the loop the open section is appended.
\<close>

fun parse_sections_loop ::
  "nat \<Rightarrow> nat \<Rightarrow> ustr list \<Rightarrow> Section list \<Rightarrow> Section option \<Rightarrow> Section list \<times> Section option"
where
  "parse_sections_loop n i [] sections current = (sections, current)"
| "parse_sections_loop n i (line # rest) sections current =
     (if H2_RE line then
        parse_sections_loop n (i + 1) rest
          (case current of
             Some c \<Rightarrow> sections @ [c\<lparr>end_idx := int i - 1\<rparr>]
           | None \<Rightarrow> sections)
          (Some \<lparr>title = heading_title line, start = int i, end_idx = int n - 1\<rparr>)
      else parse_sections_loop n (i + 1) rest sections current)"

definition parse_sections :: "ustr list \<Rightarrow> Section list" where
  "parse_sections lines =
     (case parse_sections_loop (length lines) 0 lines [] None of
        (sections, Some c) \<Rightarrow> sections @ [c]
      | (sections, None) \<Rightarrow> sections)"

text \<open>\<^verbatim>\<open>_section_range\<close>: the range of the first section whose title starts with the
  prefix.\<close>

definition section_range :: "ustr list \<Rightarrow> ustr \<Rightarrow> (int \<times> int) option" where
  "section_range lines title_prefix =
     (case find (\<lambda>sec. startswith (title sec) title_prefix) (parse_sections lines) of
        Some sec \<Rightarrow> Some (start sec, end_idx sec)
      | None \<Rightarrow> None)"

text \<open>
  \<^verbatim>\<open>_iter_tasks\<close>. The loop runs over \<^verbatim>\<open>range(start, end + 1)\<close> with the current
  subsection label and the results so far; \<^verbatim>\<open>lines[idx]\<close> can raise.
\<close>

fun iter_tasks_loop ::
  "ustr list \<Rightarrow> ustr \<Rightarrow> int list \<Rightarrow> ustr option \<Rightarrow> TaskItem list \<Rightarrow> py_error + TaskItem list"
where
  "iter_tasks_loop lines parent_title [] current_sub results = Inr results"
| "iter_tasks_loop lines parent_title (idx # rest) current_sub results =
     (case py_get lines idx of
        Inl e \<Rightarrow> Inl e
      | Inr line \<Rightarrow>
          if H3_RE line then
            iter_tasks_loop lines parent_title rest (Some (heading_title line)) results
          else
            (case TASK_MARK_RE line of
               Some (mark, g2) \<Rightarrow>
                 iter_tasks_loop lines parent_title rest current_sub
                   (results @
                    [\<lparr>line_index = idx, raw = line, status_mark = mark,
                      status = status_for mark, task_text = strip g2,
                      task_section = parent_title, task_subsection = current_sub\<rparr>])
             | None \<Rightarrow> iter_tasks_loop lines parent_title rest current_sub results))"

definition iter_tasks :: "ustr list \<Rightarrow> int \<Rightarrow> int \<Rightarrow> ustr \<Rightarrow> py_error + TaskItem list" where
  "iter_tasks lines start_i end_i parent_title =
     iter_tasks_loop lines parent_title [start_i..end_i] None []"

text \<open>\<^verbatim>\<open>_find_task_line\<close>: the index of the first line that is a task with the given
  text; \<open>i\<close> is the index of the head of the remaining lines.\<close>

fun find_task_line_from :: "nat \<Rightarrow> ustr list \<Rightarrow> ustr \<Rightarrow> nat option" where
  "find_task_line_from i [] t = None"
| "find_task_line_from i (line # rest) t =
     (case TASK_MARK_RE line of
        None \<Rightarrow> find_task_line_from (i + 1) rest t
      | Some (mark, g2) \<Rightarrow>
          if strip g2 = t then Some i else find_task_line_from (i + 1) rest t)"

definition find_task_line :: "ustr list \<Rightarrow> ustr \<Rightarrow> nat option" where
  "find_task_line lines t = find_task_line_from 0 lines t"

section \<open>Files\<close>

text \<open>
  A path is a directory and a file name; the file system is the list of the regular files
  with their decoded text, the first entry for a path being the file. Directories are not
  kept: \<^verbatim>\<open>_ensure_parents\<close> has no effect on any file, and the program writes a file only
  after ensuring its directory or after finding the file there. Undecodable files and
  failing system calls are outside the model. The text is what \<^verbatim>\<open>write\<close> stores on a
  system whose line separator is \<^verbatim>\<open>\n\<close>.
\<close>

type_synonym path = "ustr \<times> ustr"

type_synonym fs = "(path \<times> ustr) list"

definition path_exists :: "fs \<Rightarrow> path \<Rightarrow> bool" where
  "path_exists files p \<longleftrightarrow> map_of files p \<noteq> None"

text \<open>
  \<^verbatim>\<open>open(path, 'r')\<close> reads with universal newlines: \<^verbatim>\<open>\r\n\<close> and \<^verbatim>\<open>\r\<close> arrive as
  \<^verbatim>\<open>\n\<close>.
\<close>

fun universal_newlines :: "ustr \<Rightarrow> ustr" where
  "universal_newlines [] = []"
| "universal_newlines [c] = [if c = 0x0D then 0x0A else c]"
| "universal_newlines (c # d # s) =
     (if c = 0x0D \<and> d = 0x0A then 0x0A # universal_newlines s
      else if c = 0x0D then 0x0A # universal_newlines (d # s)
      else c # universal_newlines (d # s))"

definition load_file_lines :: "fs \<Rightarrow> path \<Rightarrow> py_error + ustr list" where
  "load_file_lines files p =
     (case map_of files p of
        None \<Rightarrow> Inl FileNotFoundError
      | Some content \<Rightarrow> Inr (splitlines (universal_newlines content)))"

definition save_file_lines :: "path \<Rightarrow> ustr list \<Rightarrow> fs \<Rightarrow> fs" where
  "save_file_lines p lines files =
     (p, join_nl lines @ [0x0A]) # filter (\<lambda>(q, c). q \<noteq> p) files"

text \<open>
  The clock and the installation: \<^verbatim>\<open>DAILY_ROOT\<close>, and the year, month and day strings
  that \<^verbatim>\<open>strftime\<close> gives for \<^verbatim>\<open>now()\<close> and for \<^verbatim>\<open>now() + timedelta(days=1)\<close>. One
  call of an operation sees one reading of the clock.
\<close>

record env =
  DAILY_ROOT :: ustr
  today :: "ustr \<times> ustr \<times> ustr"
  tomorrow :: "ustr \<times> ustr \<times> ustr"

text \<open>\<^verbatim>\<open>os.path.join(DAILY_ROOT, y, m)\<close> and \<^verbatim>\<open>os.path.join(DAILY_ROOT, y, m, f'{d}.md')\<close>.\<close>

definition month_dir :: "ustr \<Rightarrow> ustr \<times> ustr \<times> ustr \<Rightarrow> ustr" where
  "month_dir root ymd = (case ymd of (y, m, d) \<Rightarrow> root @ str ''/'' @ y @ str ''/'' @ m)"

definition daily_path :: "ustr \<Rightarrow> ustr \<times> ustr \<times> ustr \<Rightarrow> path" where
  "daily_path root ymd = (case ymd of (y, m, d) \<Rightarrow> (month_dir root ymd, d @ str ''.md''))"

text \<open>\<^verbatim>\<open>get_today_path\<close>: the path and whether it exists (the date string is not used by
  the operations below).\<close>

definition get_today_path :: "env \<Rightarrow> fs \<Rightarrow> path \<times> bool" where
  "get_today_path e files =
     (let p = daily_path (DAILY_ROOT e) (today e) in (p, path_exists files p))"

text \<open>The first statement of every operation that takes an optional path:
  \<^verbatim>\<open>info = get_today_path() if path is None else {'path': path, 'exists': ...}\<close>.\<close>

definition path_info :: "env \<Rightarrow> path option \<Rightarrow> fs \<Rightarrow> path \<times> bool" where
  "path_info e path_arg files =
     (case path_arg of
        None \<Rightarrow> get_today_path e files
      | Some p \<Rightarrow> (p, path_exists files p))"

section \<open>The template\<close>

text \<open>
  \<^verbatim>\<open>FALLBACK_TEMPLATE\<close> is a triple-quoted literal of 31 lines, each ended by a newline:
  first its lines, then the text.
\<close>

definition TEMPLATE_LINES :: "ustr list" where
  "TEMPLATE_LINES =
       [str ''# '' @ [0x1F4C5] @ str '' '' @ [0x4ECA, 0x65E5, 0x8BA1, 0x5212],
        [],
        str ''**'' @ [0x2600, 0xFE0F] @ str '' '' @ [0x5929, 0x6C14, 0xFF1A, 0x6674, 0x6717, 0xFF0C, 0x6E29, 0x5EA6] @ str '' 25~32'' @ [0xB0] @ str ''C'' @ [0xFF0C, 0x4E2D, 0x56FD, 0xB7, 0x4E0A, 0x6D77] @ str ''**'',
        [],
        str ''## '' @ [0x1F3AF] @ str '' '' @ [0x4ECA, 0x65E5, 0x91CD, 0x70B9, 0x4EFB, 0x52A1],
        [],
        str ''### '' @ [0x5B66, 0x4E60, 0x4E0E, 0x6210, 0x957F],
        str ''- [ ] '' @ [0x793A, 0x4F8B, 0x4EFB, 0x52A1, 0xFF1A, 0x9605, 0x8BFB] @ str ''30'' @ [0x5206, 0x949F],
        [],
        str ''## '' @ [0x1F31E] @ str '' '' @ [0x751F, 0x6D3B, 0x5B89, 0x6392],
        [],
        str ''### '' @ [0x7528, 0x9910, 0x65F6, 0x95F4],
        str ''- [ ] '' @ [0x65E9, 0x9910] @ str '' (8:00 - 8:30)'',
        str ''- [ ] '' @ [0x5348, 0x9910] @ str '' (12:00 - 12:30)'',
        str ''- [ ] '' @ [0x665A, 0x9910] @ str '' (18:00 - 18:30)'',
        [],
        str ''## '' @ [0x1F319] @ str '' '' @ [0x665A, 0x95F4, 0x603B, 0x7ED3],
        [],
        str ''### '' @ [0x1F4DD] @ str '' '' @ [0x4ECA, 0x65E5, 0x603B, 0x7ED3] @ str '' (21:00 - 21:30)'',
        str ''- [ ] '' @ [0x56DE, 0x987E, 0x4ECA, 0x65E5, 0x5B8C, 0x6210, 0x60C5, 0x51B5],
        [],
        str ''### '' @ [0x1F4CB] @ str '' '' @ [0x660E, 0x65E5, 0x8BA1, 0x5212] @ str '' (21:30 - 22:00)'',
        str ''- [ ] '' @ [0x5236, 0x5B9A, 0x660E, 0x65E5, 0x8BA1, 0x5212],
        [],
        str ''## '' @ [0x1F4CA] @ str '' '' @ [0x4ECA, 0x65E5, 0x76EE, 0x6807],
        [],
        str ''### '' @ [0x1F3AF] @ str '' '' @ [0x4E3B, 0x8981, 0x76EE, 0x6807],
        str ''- '' @ [0x4FDD, 0x6301, 0x826F, 0x597D, 0x4F5C, 0x606F],
        [],
        str ''## '' @ [0x1F4A1] @ str '' '' @ [0x5B66, 0x4E60, 0x7B14, 0x8BB0],
        []]"

definition FALLBACK_TEMPLATE :: ustr where
  "FALLBACK_TEMPLATE = concat (map (\<lambda>l. l @ [0x0A]) TEMPLATE_LINES)"

definition CANONICAL_TITLE :: ustr where
  "CANONICAL_TITLE = str ''# '' @ [0x1F4C5] @ str '' '' @ [0x4ECA, 0x65E5, 0x8BA1, 0x5212]"

section \<open>Creating today's file\<close>

text \<open>
  \<^verbatim>\<open>_guess_template_source\<close>: the markdown file of this month's directory whose name is
  last in sorted order. Python compares strings code point by code point, the
  lexicographic order of lists. A directory that holds no file gives \<open>None\<close> whether or not
  it exists, so the \<^verbatim>\<open>isdir\<close> test needs no directories in the model.
\<close>

definition listdir :: "fs \<Rightarrow> ustr \<Rightarrow> ustr list" where
  "listdir files dir = remdups (map (\<lambda>(p, c). snd p) (filter (\<lambda>(p, c). fst p = dir) files))"

definition guess_template_source :: "env \<Rightarrow> fs \<Rightarrow> path option" where
  "guess_template_source e files =
     (let dir = month_dir (DAILY_ROOT e) (today e);
          md_files = filter (\<lambda>f. endswith f (str ''.md'')) (listdir files dir)
      in if md_files \<noteq> [] then Some (dir, last (sort md_files)) else None)"

text \<open>
  The results of \<^verbatim>\<open>create_today_from_template\<close>:
  \<open>CreateExists p\<close> is \<^verbatim>\<open>{'created': False, 'path': p, 'reason': 'exists'}\<close>,
  \<open>CreatedFrom p src\<close> is \<^verbatim>\<open>{'created': True, 'path': p, 'source': src}\<close> and
  \<open>CreatedFallback p\<close> is \<^verbatim>\<open>{'created': True, 'path': p, 'source': 'fallback'}\<close>.
\<close>

datatype create_result = CreateExists path | CreatedFrom path path | CreatedFallback path

fun created :: "create_result \<Rightarrow> bool" where
  "created (CreateExists p) = False"
| "created (CreatedFrom p src) = True"
| "created (CreatedFallback p) = True"

fun reason :: "create_result \<Rightarrow> ustr option" where
  "reason (CreateExists p) = Some (str ''exists'')"
| "reason (CreatedFrom p src) = None"
| "reason (CreatedFallback p) = None"

definition create_today_from_template :: "env \<Rightarrow> bool \<Rightarrow> fs \<Rightarrow> py_error + create_result \<times> fs" where
  "create_today_from_template e force files =
     (let (p, ex) = get_today_path e files in
      if ex \<and> \<not> force then Inr (CreateExists p, files)
      else
        (case guess_template_source e files of
           Some src \<Rightarrow>
             if path_exists files src then
               (case load_file_lines files src of
                  Inl err \<Rightarrow> Inl err
                | Inr src_lines \<Rightarrow>
                    let content = join_nl src_lines @ [0x0A];
                        lines = splitlines content;
                        lines' = (if lines \<noteq> [] \<and> H1_RE (hd lines)
                                  then lines[0 := CANONICAL_TITLE] else lines)
                    in Inr (CreatedFrom p src, save_file_lines p lines' files))
             else Inr (CreatedFallback p, save_file_lines p (splitlines FALLBACK_TEMPLATE) files)
         | None \<Rightarrow>
             Inr (CreatedFallback p, save_file_lines p (splitlines FALLBACK_TEMPLATE) files)))"

section \<open>Reading\<close>

text \<open>
  \<^verbatim>\<open>read_structured\<close>: \<open>ReadMissing p\<close> is \<^verbatim>\<open>{'exists': False, 'path': p}\<close> and
  \<open>ReadOk p payload\<close> is \<^verbatim>\<open>{'exists': True, 'path': p, 'sections': payload}\<close>.
\<close>

record SectionPayload =
  payload_title :: ustr
  payload_range :: "int \<times> int"
  payload_tasks :: "TaskItem list"

datatype read_result = ReadMissing path | ReadOk path "SectionPayload list"

fun read_payload :: "ustr list \<Rightarrow> Section list \<Rightarrow> py_error + SectionPayload list" where
  "read_payload lines [] = Inr []"
| "read_payload lines (sec # rest) =
     (case iter_tasks lines (start sec) (end_idx sec) (title sec) of
        Inl err \<Rightarrow> Inl err
      | Inr tasks \<Rightarrow>
          (case read_payload lines rest of
             Inl err \<Rightarrow> Inl err
           | Inr payload \<Rightarrow>
               Inr (\<lparr>payload_title = title sec, payload_range = (start sec, end_idx sec),
                     payload_tasks = tasks\<rparr> # payload)))"

definition read_structured :: "env \<Rightarrow> path option \<Rightarrow> fs \<Rightarrow> py_error + read_result" where
  "read_structured e path_arg files =
     (let (p, ex) = path_info e path_arg files in
      if \<not> ex then Inr (ReadMissing p)
      else
        (case load_file_lines files p of
           Inl err \<Rightarrow> Inl err
         | Inr lines \<Rightarrow>
             (case read_payload lines (parse_sections lines) of
                Inl err \<Rightarrow> Inl err
              | Inr payload \<Rightarrow> Inr (ReadOk p payload))))"

section \<open>Changing a task's status\<close>

text \<open>
  \<open>SetNotFound p\<close> is \<^verbatim>\<open>{'updated': False, 'error': 'not_found', 'path': p}\<close>,
  \<open>SetTaskNotFound\<close> is \<^verbatim>\<open>{'updated': False, 'error': 'task_not_found'}\<close> and
  \<open>SetUpdated idx status\<close> is \<^verbatim>\<open>{'updated': True, 'line': idx, 'new_status': status}\<close>.
\<close>

datatype set_status_result = SetNotFound path | SetTaskNotFound | SetUpdated nat ustr

fun updated :: "set_status_result \<Rightarrow> bool" where
  "updated (SetNotFound p) = False"
| "updated SetTaskNotFound = False"
| "updated (SetUpdated idx st) = True"

fun set_status_error :: "set_status_result \<Rightarrow> ustr option" where
  "set_status_error (SetNotFound p) = Some (str ''not_found'')"
| "set_status_error SetTaskNotFound = Some (str ''task_not_found'')"
| "set_status_error (SetUpdated idx st) = None"

definition set_task_status ::
  "env \<Rightarrow> ustr \<Rightarrow> ustr \<Rightarrow> path option \<Rightarrow> fs \<Rightarrow> py_error + set_status_result \<times> fs"
where
  "set_task_status e task status_arg path_arg files =
     (let (p, ex) = path_info e path_arg files in
      if \<not> ex then Inr (SetNotFound p, files)
      else
        (case load_file_lines files p of
           Inl err \<Rightarrow> Inl err
         | Inr lines \<Rightarrow>
             (case find_task_line lines task of
                None \<Rightarrow> Inr (SetTaskNotFound, files)
              | Some idx \<Rightarrow>
                  (case py_get lines (int idx) of
                     Inl err \<Rightarrow> Inl err
                   | Inr line \<Rightarrow>
                       (case TASK_MARK_RE line of
                          None \<Rightarrow> Inl AttributeError
                        | Some (mark, g2) \<Rightarrow>
                            let new_mark = mark_for status_arg;
                                lines' = lines[idx := str ''- '' @ new_mark @ str '' '' @ g2]
                            in Inr (SetUpdated idx status_arg, save_file_lines p lines' files))))))"

section \<open>Inserting a task or a note\<close>

text \<open>
  \<^verbatim>\<open>add_task\<close> and \<^verbatim>\<open>append_note\<close> find the place of the new line with the same loop,
  written out in both: \<^verbatim>\<open>insert_at = end\<close>, then for \<^verbatim>\<open>i\<close> in
  \<^verbatim>\<open>range(end, start, -1)\<close> the first \<^verbatim>\<open>i\<close> with \<^verbatim>\<open>lines[i].strip()\<close> non-empty
  sets \<^verbatim>\<open>insert_at = i + 1\<close> and leaves the loop.
\<close>

fun scan_back :: "ustr list \<Rightarrow> int list \<Rightarrow> int \<Rightarrow> py_error + int" where
  "scan_back lines [] insert_at = Inr insert_at"
| "scan_back lines (i # rest) insert_at =
     (case py_get lines i of
        Inl err \<Rightarrow> Inl err
      | Inr line \<Rightarrow> if strip line \<noteq> [] then Inr (i + 1) else scan_back lines rest insert_at)"

definition insertion_point :: "ustr list \<Rightarrow> int \<Rightarrow> int \<Rightarrow> py_error + int" where
  "insertion_point lines start_i end_i = scan_back lines (rev [start_i + 1..end_i]) end_i"

text \<open>
  \<open>AddNotFound p\<close> is \<^verbatim>\<open>{'inserted': False, 'error': 'not_found', 'path': p}\<close>,
  \<open>AddSectionNotFound\<close> is \<^verbatim>\<open>{'inserted': False, 'error': 'section_not_found'}\<close> and
  \<open>Inserted i\<close> is \<^verbatim>\<open>{'inserted': True, 'line': i}\<close>; likewise for \<^verbatim>\<open>append_note\<close>.
\<close>

datatype add_result = AddNotFound path | AddSectionNotFound | Inserted int

datatype note_result = NoteNotFound path | NoteSectionNotFound | Appended int

definition add_task ::
  "env \<Rightarrow> ustr \<Rightarrow> ustr \<Rightarrow> ustr \<Rightarrow> path option \<Rightarrow> fs \<Rightarrow> py_error + add_result \<times> fs"
where
  "add_task e section_title_prefix task status_arg path_arg files =
     (let (p, ex) = path_info e path_arg files in
      if \<not> ex then Inr (AddNotFound p, files)
      else
        (case load_file_lines files p of
           Inl err \<Rightarrow> Inl err
         | Inr lines \<Rightarrow>
             (case section_range lines section_title_prefix of
                None \<Rightarrow> Inr (AddSectionNotFound, files)
              | Some (start_i, end_i) \<Rightarrow>
                  (case insertion_point lines start_i end_i of
                     Inl err \<Rightarrow> Inl err
                   | Inr insert_at \<Rightarrow>
                       let mark = mark_for status_arg;
                           lines' = py_insert lines insert_at (str ''- '' @ mark @ str '' '' @ task)
                       in Inr (Inserted insert_at, save_file_lines p lines' files)))))"

definition append_note ::
  "env \<Rightarrow> ustr \<Rightarrow> ustr \<Rightarrow> path option \<Rightarrow> fs \<Rightarrow> py_error + note_result \<times> fs"
where
  "append_note e section_title_prefix note_line path_arg files =
     (let (p, ex) = path_info e path_arg files in
      if \<not> ex then Inr (NoteNotFound p, files)
      else
        (case load_file_lines files p of
           Inl err \<Rightarrow> Inl err
         | Inr lines \<Rightarrow>
             (case section_range lines section_title_prefix of
                None \<Rightarrow> Inr (NoteSectionNotFound, files)
              | Some (start_i, end_i) \<Rightarrow>
                  (case insertion_point lines start_i end_i of
                     Inl err \<Rightarrow> Inl err
                   | Inr insert_at \<Rightarrow>
                       let lines' = py_insert lines insert_at (str ''- '' @ note_line)
                       in Inr (Appended insert_at, save_file_lines p lines' files)))))"

section \<open>Rollover\<close>

text \<open>
  The first loop of \<^verbatim>\<open>rollover_incomplete\<close>: the stripped texts of the task lines whose
  status is \<^verbatim>\<open>todo\<close>, \<^verbatim>\<open>partial\<close> or \<^verbatim>\<open>in_progress\<close>, in the order of the lines.
\<close>

fun tasks_to_move :: "ustr list \<Rightarrow> ustr list" where
  "tasks_to_move [] = []"
| "tasks_to_move (line # rest) =
     (case TASK_MARK_RE line of
        None \<Rightarrow> tasks_to_move rest
      | Some (mark, g2) \<Rightarrow>
          if status_for mark \<in> set [str ''todo'', str ''partial'', str ''in_progress'']
          then strip g2 # tasks_to_move rest
          else tasks_to_move rest)"

text \<open>The last loop: every text is inserted as a todo line, the next one after it.\<close>

fun insert_tasks :: "ustr list \<Rightarrow> int \<Rightarrow> ustr list \<Rightarrow> ustr list" where
  "insert_tasks new_lines insert_at [] = new_lines"
| "insert_tasks new_lines insert_at (t # ts) =
     insert_tasks (py_insert new_lines insert_at (str ''- [ ] '' @ t)) (insert_at + 1) ts"

definition TARGET_EMOJI :: ustr where
  "TARGET_EMOJI = [0x1F3AF]"

definition TARGET_TEXT :: ustr where
  "TARGET_TEXT = [0x4ECA, 0x65E5, 0x91CD, 0x70B9, 0x4EFB, 0x52A1]"

text \<open>
  \<open>RolloverNotFound p\<close> is \<^verbatim>\<open>{'moved': 0, 'error': 'not_found', 'path': p}\<close> and
  \<open>Moved n new_path\<close> is \<^verbatim>\<open>{'moved': n, 'new_file_path': new_path}\<close>.
\<close>

datatype rollover_result = RolloverNotFound path | Moved nat path

fun moved :: "rollover_result \<Rightarrow> nat" where
  "moved (RolloverNotFound p) = 0"
| "moved (Moved n new_path) = n"

definition rollover_insert_at :: "ustr list \<Rightarrow> int" where
  "rollover_insert_at new_lines =
     (case (case section_range new_lines TARGET_EMOJI of
              Some rng \<Rightarrow> Some rng
            | None \<Rightarrow> section_range new_lines TARGET_TEXT) of
        None \<Rightarrow> int (length new_lines)
      | Some (start_i, end_i) \<Rightarrow> end_i + 1)"

definition rollover_incomplete :: "env \<Rightarrow> path option \<Rightarrow> fs \<Rightarrow> py_error + rollover_result \<times> fs" where
  "rollover_incomplete e path_arg files =
     (let (p, ex) = path_info e path_arg files in
      if \<not> ex then Inr (RolloverNotFound p, files)
      else
        (case load_file_lines files p of
           Inl err \<Rightarrow> Inl err
         | Inr lines \<Rightarrow>
             let texts = tasks_to_move lines;
                 new_path = daily_path (DAILY_ROOT e) (tomorrow e);
                 files1 = (if \<not> path_exists files new_path
                           then save_file_lines new_path (splitlines FALLBACK_TEMPLATE) files
                           else files)
             in (case load_file_lines files1 new_path of
                   Inl err \<Rightarrow> Inl err
                 | Inr new_lines \<Rightarrow>
                     let new_lines' = insert_tasks new_lines (rollover_insert_at new_lines) texts
                     in Inr (Moved (length texts) new_path,
                             save_file_lines new_path new_lines' files1))))"

section \<open>Example inputs\<close>

text \<open>A clock reading, a path and small documents, used where a property is run on a
  concrete input.\<close>

definition E0 :: env where
  "E0 = \<lparr>DAILY_ROOT = str ''plans'', today = (str ''2026'', str ''11'', str ''03''),
         tomorrow = (str ''2026'', str ''11'', str ''04'')\<rparr>"

definition TODAY0 :: path where
  "TODAY0 = (str ''plans/2026/11'', str ''03.md'')"

definition TOMORROW0 :: path where
  "TOMORROW0 = (str ''plans/2026/11'', str ''04.md'')"

definition P0 :: path where
  "P0 = (str ''notes'', str ''plan.md'')"

text \<open>Two headings in a row: section \<open>A\<close> is its heading line alone.\<close>

definition DOC_AB :: ustr where
  "DOC_AB = str ''## A'' @ [0x0A] @ str ''## B'' @ [0x0A]"

text \<open>A document with a task before its first heading, an indented task with trailing
  blanks, and a blank line at the end of section \<open>A\<close>.\<close>

definition LINES1 :: "ustr list" where
  "LINES1 =
     [str ''- [ ] early'',
      str ''## A'',
      str ''  - [>] run  '',
      str ''- [x] done'',
      [],
      str ''## B'']"

definition DOC1 :: ustr where
  "DOC1 = join_nl LINES1 @ [0x0A]"

text \<open>The document of the rollover scenario: a priority section with a todo task, a done
  task and a task in progress.\<close>

definition SCENARIO_LINES :: "ustr list" where
  "SCENARIO_LINES =
     [str ''## '' @ [0x1F3AF] @ str '' '' @ [0x4ECA, 0x65E5, 0x91CD, 0x70B9, 0x4EFB, 0x52A1],
      str ''- [ ] '' @ [0x9605, 0x8BFB],
      str ''- [x] '' @ [0x8DD1, 0x6B65],
      str ''- [>] '' @ [0x5199, 0x5468, 0x62A5]]"

definition SCENARIO_DOC :: ustr where
  "SCENARIO_DOC = join_nl SCENARIO_LINES @ [0x0A]"

text \<open>The lines expected in tomorrow's file after the scenario: the template with the two
  rolled tasks after line 8, the last line of the template's priority section.\<close>

definition SCENARIO_RESULT :: "ustr list" where
  "SCENARIO_RESULT =
     take 9 TEMPLATE_LINES @
     [str ''- [ ] '' @ [0x9605, 0x8BFB], str ''- [ ] '' @ [0x5199, 0x5468, 0x62A5]] @
     drop 9 TEMPLATE_LINES"

text \<open>A document with a task of every status, and one with the capital mark.\<close>

definition LINES7 :: "ustr list" where
  "LINES7 =
     [str ''- [ ] a'', str ''- [x] b'', str ''- [~] c'', str ''- [!] d'', str ''- [>] e'',
      str ''- [?] f'', str ''- [X] g'']"

definition DOC7 :: ustr where
  "DOC7 = join_nl LINES7 @ [0x0A]"

text \<open>
  Three documents for a tomorrow's file that is already there. In the first a section
  titled with the text comes before the one titled with the emoji; in the second the
  emoji stands inside the first title, not at its start, and a later title starts with the
  text; in the third no title starts with either, though the first holds the text.
\<close>

definition BOTH_LINES :: "ustr list" where
  "BOTH_LINES =
     [str ''# plan'',
      str ''## '' @ [0x4ECA, 0x65E5, 0x91CD, 0x70B9, 0x4EFB, 0x52A1],
      str ''- [ ] t'',
      str ''## '' @ [0x1F3AF] @ str '' goals'',
      str ''- [ ] g'',
      str ''## notes'',
      str ''n'']"

definition BOTH_DOC :: ustr where
  "BOTH_DOC = join_nl BOTH_LINES @ [0x0A]"

definition TEXT_LINES :: "ustr list" where
  "TEXT_LINES =
     [str ''## my '' @ [0x1F3AF],
      str ''x'',
      str ''## '' @ [0x4ECA, 0x65E5, 0x91CD, 0x70B9, 0x4EFB, 0x52A1] @ str '' now'',
      str ''- [ ] t'',
      str ''## notes'']"

definition TEXT_DOC :: ustr where
  "TEXT_DOC = join_nl TEXT_LINES @ [0x0A]"

definition NONE_LINES :: "ustr list" where
  "NONE_LINES =
     [str ''## my '' @ [0x4ECA, 0x65E5, 0x91CD, 0x70B9, 0x4EFB, 0x52A1],
      str ''x'',
      str ''## notes'',
      str ''y'']"

definition NONE_DOC :: ustr where
  "NONE_DOC = join_nl NONE_LINES @ [0x0A]"

section \<open>Notions used in the statements\<close>

text \<open>The parsed text of a line: what \<^verbatim>\<open>m.group(2).strip()\<close> is when the line matches
  the task pattern. The status of a line: what the scanners look up for its mark.\<close>

definition parsed_text :: "ustr \<Rightarrow> ustr option" where
  "parsed_text line = map_option (\<lambda>(mark, g2). strip g2) (TASK_MARK_RE line)"

definition line_status :: "ustr \<Rightarrow> ustr option" where
  "line_status line = map_option (\<lambda>(mark, g2). status_for mark) (TASK_MARK_RE line)"

text \<open>The line a rolled task becomes, and the line \<^verbatim>\<open>set_task_status\<close> writes.\<close>

definition todo_line :: "ustr \<Rightarrow> ustr" where
  "todo_line t = str ''- [ ] '' @ t"

text \<open>
  The sections of a document written without the loop's state: every heading line opens
  a section that runs up to the line before the next heading, or to the last line.
  \<open>i\<close> is the index of the first of the lines. The parser is proved to compute this.
\<close>

fun sections_from :: "nat \<Rightarrow> ustr list \<Rightarrow> Section list" where
  "sections_from i [] = []"
| "sections_from i (line # rest) =
     (if H2_RE line then
        \<lparr>title = heading_title line, start = int i,
         end_idx = int i + int (length (takeWhile (\<lambda>l. \<not> H2_RE l) rest))\<rparr>
        # sections_from (i + 1) rest
      else sections_from (i + 1) rest)"

text \<open>Consecutive sections of a list are adjacent: each ends one line before the next
  starts.\<close>

fun adjacent :: "Section list \<Rightarrow> bool" where
  "adjacent [] = True"
| "adjacent [s] = True"
| "adjacent (s # t # rest) = (end_idx s = start t - 1 \<and> adjacent (t # rest))"

text \<open>
  Written from the words of the claim about \<^verbatim>\<open>set_task_status\<close>, to be compared with
  the line the program writes: the task line with its bracket mark replaced by the new
  mark and every other character kept (the leading whitespace, the dash, the whitespace
  after it, and all that follows the bracket).
\<close>

definition replace_mark :: "ustr \<Rightarrow> ustr \<Rightarrow> ustr" where
  "replace_mark line new_mark =
     (let lead = takeWhile is_space line;
          after_dash = tl (dropWhile is_space line);
          gap = takeWhile is_space after_dash;
          after_mark = drop 3 (dropWhile is_space after_dash)
      in lead @ [0x2D] @ gap @ new_mark @ after_mark)"

text \<open>A line is rolled over when it is a task whose status is \<^verbatim>\<open>todo\<close>, \<^verbatim>\<open>partial\<close> or
  \<^verbatim>\<open>in_progress\<close>.\<close>

definition rolls_over :: "ustr \<Rightarrow> bool" where
  "rolls_over line \<longleftrightarrow>
     line_status line \<in> {Some (str ''todo''), Some (str ''partial''), Some (str ''in_progress'')}"

text \<open>
  The shape of a task line, written from the words of the specification and to be
  compared with the pattern. \<open>claimed_task_form\<close> follows the claim as it stands: leading
  whitespace is optional, and whitespace stands between the dash and the bracket and
  between the bracket and the text. \<open>task_form\<close> makes these two optional as well.
\<close>

definition all_space :: "ustr \<Rightarrow> bool" where
  "all_space s \<longleftrightarrow> (\<forall>c \<in> set s. is_space c)"



text \<open>
  Written from the specification's table of marks and statuses, not from the program's
  dictionaries: the status of a bracket mark, the marks being read without regard to case,
  so that \<^verbatim>\<open>[X]\<close> stands with \<^verbatim>\<open>[x]\<close>. The status of a line is that of its mark, and a
  task is incomplete when its status is todo, partial or in_progress.
\<close>

definition MARK_STATUS_TABLE :: "(ustr \<times> ustr) list" where
  "MARK_STATUS_TABLE =
     [([0x5B, 0x20, 0x5D], str ''todo''),
      ([0x5B, 0x78, 0x5D], str ''done''),
      ([0x5B, 0x58, 0x5D], str ''done''),
      ([0x5B, 0x7E, 0x5D], str ''partial''),
      ([0x5B, 0x21, 0x5D], str ''cancelled''),
      ([0x5B, 0x3E, 0x5D], str ''in_progress''),
      ([0x5B, 0x3F, 0x5D], str ''need_help'')]"

definition task_status :: "ustr \<Rightarrow> ustr option" where
  "task_status line =
     (case TASK_MARK_RE line of
        None \<Rightarrow> None
      | Some (mark, g2) \<Rightarrow> map_of MARK_STATUS_TABLE mark)"

definition incomplete_task :: "ustr \<Rightarrow> bool" where
  "incomplete_task line \<longleftrightarrow>
     task_status line \<in> {Some (str ''todo''), Some (str ''partial''), Some (str ''in_progress'')}"

text \<open>
  Written from the specification's words about the destination of a rollover. A line
  opens a section titled with a prefix when it is a heading line and the first characters
  of its title are the prefix; \<open>first_titled\<close> is the index of the first such line of a
  document; the section opened at line \<open>h\<close> lasts up to the line before the next heading
  line, or to the last line. The destination is the line after the section titled with the
  emoji, else after the one titled with the text, else the end of the document.
\<close>

definition title_starts :: "ustr \<Rightarrow> ustr \<Rightarrow> bool" where
  "title_starts prefix line \<longleftrightarrow>
     H2_RE line \<and> take (length prefix) (heading_title line) = prefix"

definition first_titled :: "ustr list \<Rightarrow> ustr \<Rightarrow> nat option" where
  "first_titled lines prefix =
     find (\<lambda>h. title_starts prefix (lines ! h)) [0..<length lines]"

definition section_last :: "ustr list \<Rightarrow> nat \<Rightarrow> nat" where
  "section_last lines h = h + length (takeWhile (\<lambda>l. \<not> H2_RE l) (drop (Suc h) lines))"

definition destination :: "ustr list \<Rightarrow> nat" where
  "destination lines =
     (case first_titled lines [0x1F3AF] of
        Some h \<Rightarrow> section_last lines h + 1
      | None \<Rightarrow>
          (case first_titled lines [0x4ECA, 0x65E5, 0x91CD, 0x70B9, 0x4EFB, 0x52A1] of
             Some h \<Rightarrow> section_last lines h + 1
           | None \<Rightarrow> length lines))"

section \<open>Properties\<close>

subsection \<open>The status table\<close>

lemma STATUS_TO_MARK_eq:
  "STATUS_TO_MARK =
     [(str ''need_help'', str ''[?]''), (str ''in_progress'', str ''[>]''),
      (str ''cancelled'', str ''[!]''), (str ''partial'', str ''[~]''),
      (str ''done'', str ''[x]''), (str ''todo'', str ''[ ]'')]"
  by (simp add: STATUS_TO_MARK_def TASK_STATUS_MAP_def)

lemma mark_for_todo: "mark_for (str ''todo'') = str ''[ ]''"
  by (simp add: mark_for_def dict_get_def STATUS_TO_MARK_eq str_def)

lemma mark_for_done: "mark_for (str ''done'') = str ''[x]''"
  by (simp add: mark_for_def dict_get_def STATUS_TO_MARK_eq str_def)

text \<open>
  C6. The table has six entries; on each of them the two lookups invert each other, in
  both directions; and a status that is none of the six is given the todo mark.
\<close>

theorem status_mark_bijection:
  "length TASK_STATUS_MAP = 6 \<and>
   (\<forall>(m, s) \<in> set TASK_STATUS_MAP.
      status_for m = s \<and> mark_for s = m \<and>
      mark_for (status_for m) = m \<and> status_for (mark_for s) = s) \<and>
   (\<forall>s. s \<notin> snd ` set TASK_STATUS_MAP \<longrightarrow> mark_for s = str ''[ ]'')"
  by (simp add: status_for_def mark_for_def dict_get_def STATUS_TO_MARK_eq TASK_STATUS_MAP_def
      str_def lower_def lower_char_def)

theorem status_mark_bijection_witness:
  "(str ''[>]'', str ''in_progress'') \<in> set TASK_STATUS_MAP \<and>
   mark_for (status_for (str ''[>]'')) = str ''[>]'' \<and>
   status_for (mark_for (str ''in_progress'')) = str ''in_progress'' \<and>
   str ''urgent'' \<notin> snd ` set TASK_STATUS_MAP \<and>
   mark_for (str ''urgent'') = str ''[ ]''"
proof -
  have a: "(str ''[>]'', str ''in_progress'') \<in> set TASK_STATUS_MAP"
    by (simp add: TASK_STATUS_MAP_def)
  have b: "str ''urgent'' \<notin> snd ` set TASK_STATUS_MAP"
    by (simp add: TASK_STATUS_MAP_def str_def)
  have c: "\<forall>x \<in> set TASK_STATUS_MAP. case x of (m, s) \<Rightarrow>
      status_for m = s \<and> mark_for s = m \<and>
      mark_for (status_for m) = m \<and> status_for (mark_for s) = s"
    using status_mark_bijection by (rule conjunct1 [OF conjunct2])
  have d: "\<forall>s. s \<notin> snd ` set TASK_STATUS_MAP \<longrightarrow> mark_for s = str ''[ ]''"
    using status_mark_bijection by (rule conjunct2 [OF conjunct2])
  from bspec [OF c a] have e: "mark_for (status_for (str ''[>]'')) = str ''[>]'' \<and>
   status_for (mark_for (str ''in_progress'')) = str ''in_progress''"
    by (simp only: prod.case)
  have f: "mark_for (str ''urgent'') = str ''[ ]''"
    by (rule mp [OF spec [OF d] b])
  from a b e f show ?thesis by (simp only: simp_thms)
qed

subsection \<open>Creating a file that exists\<close>

text \<open>
  C8. When today's file exists, \<^verbatim>\<open>create_today_from_template(force=False)\<close> returns
  \<^verbatim>\<open>created = False\<close> with the reason \<^verbatim>\<open>exists\<close>, and the file system it leaves is the
  one it found: nothing is written.
\<close>

theorem create_existing_is_noop:
  assumes "path_exists files (daily_path (DAILY_ROOT e) (today e))"
  shows "\<exists>r. create_today_from_template e False files = Inr (r, files) \<and>
             created r = False \<and> reason r = Some (str ''exists'')"
  using assms by (simp add: create_today_from_template_def get_today_path_def)

lemma today_path_E0: "daily_path (DAILY_ROOT E0) (today E0) = TODAY0"
  by (simp add: daily_path_def month_dir_def E0_def TODAY0_def str_def)

lemma tomorrow_path_E0: "daily_path (DAILY_ROOT E0) (tomorrow E0) = TOMORROW0"
  by (simp add: daily_path_def month_dir_def E0_def TOMORROW0_def str_def)

theorem create_existing_is_noop_witness:
  "path_exists [(TODAY0, DOC_AB)] (daily_path (DAILY_ROOT E0) (today E0)) \<and>
   (\<exists>r. create_today_from_template E0 False [(TODAY0, DOC_AB)] = Inr (r, [(TODAY0, DOC_AB)]) \<and>
        created r = False \<and> reason r = Some (str ''exists''))"
proof -
  have h: "path_exists [(TODAY0, DOC_AB)] (daily_path (DAILY_ROOT E0) (today E0))"
    by (simp add: path_exists_def today_path_E0)
  show ?thesis using h create_existing_is_noop [OF h] by (rule conjI)
qed

subsection \<open>Inserting into a section without content\<close>

lemma lines_DOC_AB: "splitlines (universal_newlines DOC_AB) = [str ''## A'', str ''## B'']"
  by (simp add: DOC_AB_def splitlines_def str_def is_linebreak_def)

lemma sections_DOC_AB:
  "parse_sections [str ''## A'', str ''## B''] =
     [\<lparr>title = str ''A'', start = 0, end_idx = 0\<rparr>, \<lparr>title = str ''B'', start = 1, end_idx = 1\<rparr>]"
  by (simp add: parse_sections_def H2_RE_def str_def is_space_def heading_title_def strip_def
      lstrip_hash_def)

lemma range_DOC_AB: "section_range [str ''## A'', str ''## B''] (str ''A'') = Some (0, 0)"
  by (simp add: section_range_def sections_DOC_AB startswith_def)

text \<open>
  C2, at a section that is its heading alone. No line lies between \<open>start\<close> and \<open>end\<close>, the
  loop does not run, and the new line is inserted at index \<open>end = start\<close>: before the
  heading of its own section, not as the section's last line before the next heading.
\<close>

theorem add_task_heading_only_section:
  "add_task E0 (str ''A'') (str ''t'') (str ''todo'') (Some P0) [(P0, DOC_AB)] =
   Inr (Inserted 0, [(P0, join_nl [str ''- [ ] t'', str ''## A'', str ''## B''] @ [0x0A])])"
  by (simp add: add_task_def path_info_def path_exists_def load_file_lines_def lines_DOC_AB
      range_DOC_AB insertion_point_def mark_for_todo py_insert_def save_file_lines_def)
    (simp add: str_def)

subsection \<open>Files\<close>

lemma map_of_filter_other:
  "map_of (filter (\<lambda>(q, c). q \<noteq> p) files) q = (if q = p then None else map_of files q)"
  by (induction files) auto

lemma map_of_save_file_lines:
  "map_of (save_file_lines p ls files) q =
     (if q = p then Some (join_nl ls @ [0x0A]) else map_of files q)"
  by (simp add: save_file_lines_def map_of_filter_other)

lemma load_file_lines_exists:
  "path_exists files p \<Longrightarrow> \<exists>ls. load_file_lines files p = Inr ls"
  by (auto simp: path_exists_def load_file_lines_def)

subsection \<open>List insertion\<close>

lemma py_insert_nonneg:
  "0 \<le> i \<Longrightarrow> py_insert xs i x = take (nat i) xs @ [x] @ drop (nat i) xs"
  by (cases "i \<le> int (length xs)") (simp_all add: py_insert_def min_def)

lemma py_insert_length: "length (py_insert xs i x) = Suc (length xs)"
  by (simp add: py_insert_def Let_def)

lemma py_insert_split:
  "\<exists>j \<le> length xs. py_insert xs i x = take j xs @ [x] @ drop j xs"
proof -
  define j where "j = nat (if i < 0 then max 0 (int (length xs) + i) else min i (int (length xs)))"
  have "j \<le> length xs" by (auto simp: j_def)
  moreover have "py_insert xs i x = take j xs @ [x] @ drop j xs"
    by (simp add: py_insert_def j_def Let_def)
  ultimately show ?thesis by blast
qed

lemma insert_tasks_eq:
  "0 \<le> k \<Longrightarrow>
   insert_tasks ls k ts = take (nat k) ls @ map todo_line ts @ drop (nat k) ls"
proof (induction ts arbitrary: ls k)
  case Nil
  then show ?case by simp
next
  case (Cons t ts)
  let ?ls' = "py_insert ls k (str ''- [ ] '' @ t)"
  have ls': "?ls' = take (nat k) ls @ [todo_line t] @ drop (nat k) ls"
    using Cons.prems by (simp add: py_insert_nonneg todo_line_def)
  have step: "insert_tasks ?ls' (k + 1) ts =
      take (nat (k + 1)) ?ls' @ map todo_line ts @ drop (nat (k + 1)) ?ls'"
    using Cons.prems by (intro Cons.IH) simp
  have nk: "nat (k + 1) = Suc (nat k)" using Cons.prems by simp
  show ?case
  proof (cases "nat k \<le> length ls")
    case True
    then have "take (Suc (nat k)) ?ls' = take (nat k) ls @ [todo_line t]"
      and "drop (Suc (nat k)) ?ls' = drop (nat k) ls"
      by (simp_all add: ls' min_def)
    then show ?thesis using step by (simp add: nk)
  next
    case False
    then have "take (Suc (nat k)) ?ls' = ls @ [todo_line t]"
      and "drop (Suc (nat k)) ?ls' = []"
      by (simp_all add: ls')
    then show ?thesis using step False by (simp add: nk)
  qed
qed

subsection \<open>Finding a task\<close>

lemma find_task_line_from_None:
  "find_task_line_from i ls t = None \<longleftrightarrow> (\<forall>l \<in> set ls. parsed_text l \<noteq> Some t)"
  by (induction ls arbitrary: i) (auto simp: parsed_text_def split: option.splits)

lemma find_task_line_from_Some:
  "find_task_line_from i ls t = Some j \<Longrightarrow>
   i \<le> j \<and> j - i < length ls \<and> parsed_text (ls ! (j - i)) = Some t \<and>
   (\<forall>k < j - i. parsed_text (ls ! k) \<noteq> Some t)"
proof (induction ls arbitrary: i)
  case Nil
  then show ?case by simp
next
  case (Cons l ls)
  show ?case
  proof (cases "parsed_text l = Some t")
    case True
    then have "j = i" using Cons.prems by (auto simp: parsed_text_def split: option.splits)
    then show ?thesis using True by simp
  next
    case False
    then have rec: "find_task_line_from (i + 1) ls t = Some j"
      using Cons.prems by (auto simp: parsed_text_def split: option.splits if_splits)
    from Cons.IH [OF rec] have ih: "i + 1 \<le> j" "j - (i + 1) < length ls"
      "parsed_text (ls ! (j - (i + 1))) = Some t"
      "\<forall>k < j - (i + 1). parsed_text (ls ! k) \<noteq> Some t" by auto
    have ji: "j - i = Suc (j - (i + 1))" using ih(1) by simp
    show ?thesis
    proof (intro conjI allI impI)
      show "i \<le> j" using ih(1) by simp
      show "j - i < length (l # ls)" using ih(2) ji by simp
      show "parsed_text ((l # ls) ! (j - i)) = Some t" using ih(3) ji by simp
      fix k assume "k < j - i"
      then show "parsed_text ((l # ls) ! k) \<noteq> Some t"
        using False ih(4) ji by (cases k) auto
    qed
  qed
qed

lemma find_task_line_Some:
  "find_task_line ls t = Some j \<Longrightarrow>
   j < length ls \<and> parsed_text (ls ! j) = Some t \<and> (\<forall>k < j. parsed_text (ls ! k) \<noteq> Some t)"
  using find_task_line_from_Some [of 0 ls t j] by (simp add: find_task_line_def)

lemma find_task_line_None:
  "find_task_line ls t = None \<longleftrightarrow> (\<forall>l \<in> set ls. parsed_text l \<noteq> Some t)"
  by (simp add: find_task_line_def find_task_line_from_None)

lemma find_task_line_first:
  assumes "j < length ls" "parsed_text (ls ! j) = Some t" "\<forall>k < j. parsed_text (ls ! k) \<noteq> Some t"
  shows "find_task_line ls t = Some j"
proof (cases "find_task_line ls t")
  case None
  then show ?thesis using assms(1,2) by (auto simp: find_task_line_None)
next
  case (Some j')
  from find_task_line_Some [OF Some] have a: "j' < length ls" "parsed_text (ls ! j') = Some t"
    "\<forall>k < j'. parsed_text (ls ! k) \<noteq> Some t" by auto
  have "j' = j"
  proof (rule ccontr)
    assume "j' \<noteq> j"
    then consider "j' < j" | "j < j'" by linarith
    then show False using a assms by cases auto
  qed
  then show ?thesis using Some by simp
qed

subsection \<open>The parser\<close>

lemma parse_sections_loop_eq:
  assumes "n = i + length ls" "\<forall>c. current = Some c \<longrightarrow> end_idx c = int n - 1"
  shows "(case parse_sections_loop n i ls secs current of
            (secs', Some c) \<Rightarrow> secs' @ [c] | (secs', None) \<Rightarrow> secs') =
         secs @
         (case current of
            None \<Rightarrow> []
          | Some c \<Rightarrow> [c\<lparr>end_idx := int i + int (length (takeWhile (\<lambda>l. \<not> H2_RE l) ls)) - 1\<rparr>]) @
         sections_from i ls"
  using assms
proof (induction ls arbitrary: i secs current)
  case Nil
  then show ?case by (cases current) auto
next
  case (Cons l ls)
  show ?case
  proof (cases "H2_RE l")
    case True
    have "(case parse_sections_loop n (i + 1) ls
              (case current of Some c \<Rightarrow> secs @ [c\<lparr>end_idx := int i - 1\<rparr>] | None \<Rightarrow> secs)
              (Some \<lparr>title = heading_title l, start = int i, end_idx = int n - 1\<rparr>) of
            (secs', Some c) \<Rightarrow> secs' @ [c] | (secs', None) \<Rightarrow> secs') =
          (case current of Some c \<Rightarrow> secs @ [c\<lparr>end_idx := int i - 1\<rparr>] | None \<Rightarrow> secs) @
          (case Some \<lparr>title = heading_title l, start = int i, end_idx = int n - 1\<rparr> of
             None \<Rightarrow> []
           | Some c \<Rightarrow> [c\<lparr>end_idx := int (i + 1) + int (length (takeWhile (\<lambda>l. \<not> H2_RE l) ls)) - 1\<rparr>]) @
          sections_from (i + 1) ls"
      using Cons.prems by (intro Cons.IH) auto
    then show ?thesis using True by (cases current) auto
  next
    case False
    have "(case parse_sections_loop n (i + 1) ls secs current of
            (secs', Some c) \<Rightarrow> secs' @ [c] | (secs', None) \<Rightarrow> secs') =
          secs @
          (case current of
             None \<Rightarrow> []
           | Some c \<Rightarrow> [c\<lparr>end_idx := int (i + 1) + int (length (takeWhile (\<lambda>l. \<not> H2_RE l) ls)) - 1\<rparr>]) @
          sections_from (i + 1) ls"
      using Cons.prems by (intro Cons.IH) auto
    then show ?thesis using False by (cases current) auto
  qed
qed

lemma parse_sections_eq: "parse_sections lines = sections_from 0 lines"
  using parse_sections_loop_eq [of "length lines" 0 lines None "[]"]
  by (simp add: parse_sections_def split: prod.splits option.splits)

lemma sections_from_bounds:
  "s \<in> set (sections_from i ls) \<Longrightarrow>
   int i \<le> start s \<and> start s \<le> end_idx s \<and> end_idx s < int i + int (length ls) \<and>
   H2_RE (ls ! (nat (start s) - i)) \<and> title s = heading_title (ls ! (nat (start s) - i))"
proof (induction ls arbitrary: i)
  case Nil
  then show ?case by simp
next
  case (Cons l ls)
  have tw: "length (takeWhile (\<lambda>l. \<not> H2_RE l) ls) \<le> length ls"
    by (rule length_takeWhile_le)
  show ?case
  proof (cases "s \<in> set (sections_from (i + 1) ls)")
    case True
    from Cons.IH [OF True] have ih: "int (i + 1) \<le> start s" "start s \<le> end_idx s"
      "end_idx s < int (i + 1) + int (length ls)" "H2_RE (ls ! (nat (start s) - (i + 1)))"
      "title s = heading_title (ls ! (nat (start s) - (i + 1)))"
      by auto
    have "nat (start s) - i = Suc (nat (start s) - (i + 1))" using ih(1) by linarith
    then show ?thesis using ih by simp
  next
    case False
    then have "H2_RE l" and
      "s = \<lparr>title = heading_title l, start = int i,
            end_idx = int i + int (length (takeWhile (\<lambda>l. \<not> H2_RE l) ls))\<rparr>"
      using Cons.prems by (auto split: if_splits)
    then show ?thesis using tw by simp
  qed
qed

lemma parse_sections_bounds:
  "s \<in> set (parse_sections lines) \<Longrightarrow>
   0 \<le> start s \<and> start s \<le> end_idx s \<and> end_idx s < int (length lines) \<and>
   H2_RE (lines ! nat (start s)) \<and> title s = heading_title (lines ! nat (start s))"
  using sections_from_bounds [of s 0 lines] by (simp add: parse_sections_eq)

lemma section_range_bounds:
  "section_range lines prefix = Some (a, b) \<Longrightarrow> 0 \<le> a \<and> a \<le> b \<and> b < int (length lines)"
  by (auto simp: section_range_def find_Some_iff split: option.splits
      dest!: parse_sections_bounds [OF nth_mem])

lemma takeWhile_prefix_holds: "j < length (takeWhile P xs) \<Longrightarrow> P (xs ! j)"
  using takeWhile_nth [of j P xs] nth_mem [of j "takeWhile P xs"] set_takeWhileD [of _ P xs]
  by metis

lemma sections_from_empty:
  "sections_from i ls = [] \<longleftrightarrow> (\<forall>l \<in> set ls. \<not> H2_RE l)"
  by (induction ls arbitrary: i) auto

lemma sections_from_hd:
  "sections_from i ls \<noteq> [] \<Longrightarrow>
   start (hd (sections_from i ls)) = int i + int (length (takeWhile (\<lambda>l. \<not> H2_RE l) ls))"
  by (induction ls arbitrary: i) auto

lemma sections_from_last:
  "sections_from i ls \<noteq> [] \<Longrightarrow>
   end_idx (last (sections_from i ls)) = int i + int (length ls) - 1"
proof (induction ls arbitrary: i)
  case Nil
  then show ?case by simp
next
  case (Cons l ls)
  show ?case
  proof (cases "sections_from (i + 1) ls = []")
    case True
    then have "\<forall>l \<in> set ls. \<not> H2_RE l"
      by (simp add: sections_from_empty)
    then have "takeWhile (\<lambda>l. \<not> H2_RE l) ls = ls"
      by (intro takeWhile_eq_all_conv [THEN iffD2]) simp
    then have "length (takeWhile (\<lambda>l. \<not> H2_RE l) ls) = length ls"
      by (rule arg_cong)
    then show ?thesis using True Cons.prems by (simp split: if_splits)
  next
    case False
    from Cons.IH [OF False] show ?thesis using False by simp
  qed
qed

lemma sections_from_adjacent: "adjacent (sections_from i ls)"
proof (induction ls arbitrary: i)
  case Nil
  then show ?case by simp
next
  case (Cons l ls)
  show ?case
  proof (cases "H2_RE l")
    case False
    then show ?thesis using Cons.IH by simp
  next
    case True
    show ?thesis
    proof (cases "sections_from (i + 1) ls")
      case Nil
      then show ?thesis using True by simp
    next
      case (Cons t rest)
      have "start t = int (i + 1) + int (length (takeWhile (\<lambda>l. \<not> H2_RE l) ls))"
        using sections_from_hd [of "i + 1" ls] Cons by simp
      moreover have "adjacent (t # rest)" using Cons.IH [of "i + 1"] Cons by simp
      ultimately show ?thesis using True Cons by simp
    qed
  qed
qed

lemma adjacent_nth:
  "adjacent xs \<Longrightarrow> Suc k < length xs \<Longrightarrow> end_idx (xs ! k) = start (xs ! Suc k) - 1"
proof (induction xs arbitrary: k rule: adjacent.induct)
  case (3 s t rest)
  then show ?case by (cases k) auto
qed simp_all

lemma sections_from_separated:
  "sorted_wrt (\<lambda>s t. end_idx s < start t) (sections_from i ls)"
proof (induction ls arbitrary: i)
  case Nil
  then show ?case by simp
next
  case (Cons l ls)
  let ?tw = "takeWhile (\<lambda>l. \<not> H2_RE l) ls"
  have after: "int i + int (length ?tw) < start y" if y: "y \<in> set (sections_from (i + 1) ls)" for y
  proof -
    from sections_from_bounds [OF y] have b: "int (i + 1) \<le> start y"
      "H2_RE (ls ! (nat (start y) - (i + 1)))" by auto
    have "\<not> nat (start y) - (i + 1) < length ?tw"
      using takeWhile_prefix_holds [of "nat (start y) - (i + 1)" "\<lambda>l. \<not> H2_RE l" ls] b(2) by blast
    then show ?thesis using b(1) by linarith
  qed
  show ?case using Cons.IH [of "i + 1"] after by auto
qed

lemma sections_from_covers:
  "j < length ls \<Longrightarrow>
   (\<exists>s \<in> set (sections_from i ls). start s \<le> int (i + j) \<and> int (i + j) \<le> end_idx s) \<longleftrightarrow>
   (\<exists>h \<le> j. H2_RE (ls ! h))"
proof (induction ls arbitrary: i j)
  case Nil
  then show ?case by simp
next
  case (Cons l ls)
  let ?tw = "takeWhile (\<lambda>l. \<not> H2_RE l) ls"
  show ?case
  proof (cases "H2_RE l")
    case True
    have rhs: "\<exists>h \<le> j. H2_RE ((l # ls) ! h)" using True by (intro exI [of _ 0]) simp
    have lhs: "\<exists>s \<in> set (sections_from i (l # ls)). start s \<le> int (i + j) \<and> int (i + j) \<le> end_idx s"
    proof (cases "j \<le> length ?tw")
      case True
      then show ?thesis using \<open>H2_RE l\<close> by simp
    next
      case False
      then obtain j' where j': "j = Suc j'" "length ?tw \<le> j'" by (cases j) auto
      have lt: "length ?tw < length ls" using j' Cons.prems by simp
      have "\<not> (\<lambda>l. \<not> H2_RE l) (ls ! length ?tw)"
        using lt by (intro nth_length_takeWhile)
      then have "\<exists>h \<le> j'. H2_RE (ls ! h)" using j'(2) by auto
      moreover have "j' < length ls" using Cons.prems j' by simp
      ultimately have "\<exists>s \<in> set (sections_from (i + 1) ls).
          start s \<le> int (i + 1 + j') \<and> int (i + 1 + j') \<le> end_idx s"
        using Cons.IH [of j' "i + 1"] by simp
      then show ?thesis using \<open>H2_RE l\<close> j'(1) by auto
    qed
    from lhs rhs show ?thesis by simp
  next
    case False
    show ?thesis
    proof (cases j)
      case 0
      have "\<not> (\<exists>s \<in> set (sections_from (i + 1) ls). start s \<le> int i)"
        using sections_from_bounds [of _ "i + 1" ls] by fastforce
      then show ?thesis using False 0 by simp
    next
      case (Suc j')
      then have "j' < length ls" using Cons.prems by simp
      from Cons.IH [OF this, of "i + 1"]
      have ih: "(\<exists>s \<in> set (sections_from (i + 1) ls).
          start s \<le> int (i + 1 + j') \<and> int (i + 1 + j') \<le> end_idx s) \<longleftrightarrow>
          (\<exists>h \<le> j'. H2_RE (ls ! h))" .
      have "(\<exists>h \<le> Suc j'. H2_RE ((l # ls) ! h)) \<longleftrightarrow> (\<exists>h \<le> j'. H2_RE (ls ! h))"
      proof
        assume "\<exists>h \<le> Suc j'. H2_RE ((l # ls) ! h)"
        then obtain h where h: "h \<le> Suc j'" "H2_RE ((l # ls) ! h)" by blast
        then obtain h' where "h = Suc h'" using False by (cases h) auto
        then show "\<exists>h \<le> j'. H2_RE (ls ! h)" using h by auto
      next
        assume "\<exists>h \<le> j'. H2_RE (ls ! h)"
        then obtain h where "h \<le> j'" "H2_RE (ls ! h)" by blast
        then show "\<exists>h \<le> Suc j'. H2_RE ((l # ls) ! h)" by (intro exI [of _ "Suc h"]) simp
      qed
      then show ?thesis using ih False Suc by simp
    qed
  qed
qed

text \<open>
  C9. The sections the parser returns are ordered and do not overlap (each ends before
  every later one starts); each ends one line before the next one starts, there at a
  heading; each starts at a heading line inside the document and is not empty; the last
  one ends at the last line; and a line belongs to a section exactly when a heading
  stands at or before it, so the lines before the first heading belong to none.
\<close>

theorem sections_contiguous:
  "sorted_wrt (\<lambda>s t. end_idx s < start t) (parse_sections lines) \<and>
   (\<forall>k. Suc k < length (parse_sections lines) \<longrightarrow>
      start (parse_sections lines ! k) < start (parse_sections lines ! Suc k) \<and>
      end_idx (parse_sections lines ! k) = start (parse_sections lines ! Suc k) - 1) \<and>
   (\<forall>s \<in> set (parse_sections lines).
      0 \<le> start s \<and> start s \<le> end_idx s \<and> end_idx s < int (length lines) \<and>
      H2_RE (lines ! nat (start s))) \<and>
   (parse_sections lines \<noteq> [] \<longrightarrow>
      end_idx (last (parse_sections lines)) = int (length lines) - 1) \<and>
   (\<forall>j < length lines.
      (\<exists>s \<in> set (parse_sections lines). start s \<le> int j \<and> int j \<le> end_idx s) \<longleftrightarrow>
      (\<exists>h \<le> j. H2_RE (lines ! h)))"
proof (intro conjI allI impI ballI)
  show "sorted_wrt (\<lambda>s t. end_idx s < start t) (parse_sections lines)"
    by (simp add: parse_sections_eq sections_from_separated)
next
  fix k assume k: "Suc k < length (parse_sections lines)"
  show "end_idx (parse_sections lines ! k) = start (parse_sections lines ! Suc k) - 1"
    using k adjacent_nth [OF sections_from_adjacent, of k 0 lines]
    by (simp add: parse_sections_eq)
  have "start (parse_sections lines ! k) \<le> end_idx (parse_sections lines ! k)"
    using parse_sections_bounds [OF nth_mem, of k lines] k by simp
  then show "start (parse_sections lines ! k) < start (parse_sections lines ! Suc k)"
    using \<open>end_idx (parse_sections lines ! k) = start (parse_sections lines ! Suc k) - 1\<close>
    by simp
next
  fix s assume "s \<in> set (parse_sections lines)"
  from parse_sections_bounds [OF this]
  show "0 \<le> start s" "start s \<le> end_idx s" "end_idx s < int (length lines)"
    "H2_RE (lines ! nat (start s))" by auto
next
  assume "parse_sections lines \<noteq> []"
  then show "end_idx (last (parse_sections lines)) = int (length lines) - 1"
    using sections_from_last [of 0 lines] by (simp add: parse_sections_eq)
next
  fix j assume "j < length lines"
  from sections_from_covers [OF this, of 0]
  show "(\<exists>s \<in> set (parse_sections lines). start s \<le> int j \<and> int j \<le> end_idx s) \<longleftrightarrow>
        (\<exists>h \<le> j. H2_RE (lines ! h))"
    by (simp add: parse_sections_eq)
qed

subsection \<open>The example document\<close>

lemma load_DOC1: "splitlines (universal_newlines DOC1) = LINES1"
  by (simp add: DOC1_def LINES1_def splitlines_def str_def is_linebreak_def)

lemma load_file_DOC1: "load_file_lines [(P0, DOC1)] P0 = Inr LINES1"
  by (simp add: load_file_lines_def load_DOC1)

lemma path_info_P0: "path_info E0 (Some P0) [(P0, DOC1)] = (P0, True)"
  by (simp add: path_info_def path_exists_def)

lemma nth_LINES1:
  "LINES1 ! 0 = str ''- [ ] early''" "LINES1 ! 2 = str ''  - [>] run  ''"
  "LINES1 ! 3 = str ''- [x] done''"
  by (simp_all add: LINES1_def)

lemma length_LINES1: "length LINES1 = 6"
  by (simp add: LINES1_def)

lemma matches_examples:
  "TASK_MARK_RE (str ''- [ ] early'') = Some (str ''[ ]'', str ''early'')"
  "TASK_MARK_RE (str ''## A'') = None"
  "TASK_MARK_RE (str ''  - [>] run  '') = Some (str ''[>]'', str ''run  '')"
  "TASK_MARK_RE (str ''- [x] done'') = Some (str ''[x]'', str ''done'')"
  "TASK_MARK_RE [] = None"
  "TASK_MARK_RE (str ''## B'') = None"
  by (simp_all add: TASK_MARK_RE_def str_def is_space_def is_mark_char_def)

lemma strip_examples:
  "strip (str ''early'') = str ''early''" "strip (str ''run  '') = str ''run''"
  "strip (str ''done'') = str ''done''"
  by (simp_all add: strip_def str_def is_space_def)

lemma parsed_examples:
  "parsed_text (str ''- [ ] early'') = Some (str ''early'')"
  "parsed_text (str ''## A'') = None"
  "parsed_text (str ''  - [>] run  '') = Some (str ''run'')"
  "parsed_text (str ''- [x] done'') = Some (str ''done'')"
  "parsed_text [] = None"
  "parsed_text (str ''## B'') = None"
  by (simp_all add: parsed_text_def matches_examples strip_examples)

lemma all_nth_take:
  assumes "j \<le> length xs"
  shows "(\<forall>k < j. P (xs ! k)) \<longleftrightarrow> (\<forall>x \<in> set (take j xs). P x)"
proof
  assume a: "\<forall>k < j. P (xs ! k)"
  show "\<forall>x \<in> set (take j xs). P x"
  proof
    fix x assume "x \<in> set (take j xs)"
    then obtain k where "k < length (take j xs)" "take j xs ! k = x"
      by (auto simp: in_set_conv_nth)
    then show "P x" using a by auto
  qed
next
  assume b: "\<forall>x \<in> set (take j xs). P x"
  show "\<forall>k < j. P (xs ! k)"
  proof (intro allI impI)
    fix k assume k: "k < j"
    then have "take j xs ! k \<in> set (take j xs)" using assms by (intro nth_mem) simp
    then show "P (xs ! k)" using b k by auto
  qed
qed

lemma str_neq_examples:
  "str ''early'' \<noteq> str ''run''" "str ''early'' \<noteq> str ''nope''" "str ''run'' \<noteq> str ''nope''"
  "str ''done'' \<noteq> str ''nope''" "str ''- [x] run  '' \<noteq> str ''  - [x] run  ''"
  by (simp_all add: str_def)

subsection \<open>Changing a task's status\<close>

lemma set_task_status_found:
  assumes "path_info e path_arg files = (p, True)" "load_file_lines files p = Inr lines"
    "j < length lines" "TASK_MARK_RE (lines ! j) = Some (mark, g2)" "strip g2 = task"
    "\<forall>k < j. parsed_text (lines ! k) \<noteq> Some task"
  shows "set_task_status e task st path_arg files =
     Inr (SetUpdated j st,
          save_file_lines p (lines[j := str ''- '' @ mark_for st @ str '' '' @ g2]) files)"
proof -
  have "parsed_text (lines ! j) = Some task"
    using assms(4,5) by (simp add: parsed_text_def)
  then have "find_task_line lines task = Some j"
    using assms(3,6) by (intro find_task_line_first) auto
  moreover have "py_get lines (int j) = Inr (lines ! j)"
    using assms(3) by (simp add: py_get_def)
  ultimately show ?thesis
    using assms(1,2,4) by (simp add: set_task_status_def)
qed

lemma set_task_status_absent:
  assumes "path_info e path_arg files = (p, True)" "load_file_lines files p = Inr lines"
    "\<forall>l \<in> set lines. parsed_text l \<noteq> Some task"
  shows "set_task_status e task st path_arg files = Inr (SetTaskNotFound, files)"
proof -
  have "find_task_line lines task = None"
    using assms(3) by (simp add: find_task_line_None)
  then show ?thesis using assms(1,2) by (simp add: set_task_status_def)
qed

text \<open>
  C3, as the program has it. With the file absent the result is \<^verbatim>\<open>not_found\<close>, with no
  line whose parsed text is the given text it is \<^verbatim>\<open>task_not_found\<close>, and in both cases
  the files are untouched. Otherwise the first such line, and no other, is replaced by
  \<^verbatim>\<open>"- " + mark + " " + g2\<close>, where the mark is that of the requested status (the todo
  mark for an unknown one) and \<open>g2\<close> is the text the pattern captured after the bracket
  and the whitespace behind it; the result is \<^verbatim>\<open>updated = True\<close>.
\<close>

theorem set_task_status_outcomes:
  "(path_info e path_arg files = (p, False) \<longrightarrow>
      (\<exists>r. set_task_status e task st path_arg files = Inr (r, files) \<and>
           \<not> updated r \<and> set_status_error r = Some (str ''not_found''))) \<and>
   (path_info e path_arg files = (p, True) \<and> load_file_lines files p = Inr lines \<and>
    (\<forall>l \<in> set lines. parsed_text l \<noteq> Some task) \<longrightarrow>
      (\<exists>r. set_task_status e task st path_arg files = Inr (r, files) \<and>
           \<not> updated r \<and> set_status_error r = Some (str ''task_not_found''))) \<and>
   (path_info e path_arg files = (p, True) \<and> load_file_lines files p = Inr lines \<and>
    j < length lines \<and> TASK_MARK_RE (lines ! j) = Some (mark, g2) \<and> strip g2 = task \<and>
    (\<forall>k < j. parsed_text (lines ! k) \<noteq> Some task) \<longrightarrow>
      (\<exists>r. set_task_status e task st path_arg files =
             Inr (r, save_file_lines p
                       (lines[j := str ''- '' @ mark_for st @ str '' '' @ g2]) files) \<and>
           updated r \<and> r = SetUpdated j st)) \<and>
   (st \<notin> snd ` set TASK_STATUS_MAP \<longrightarrow> mark_for st = str ''[ ]'')"
proof (intro conjI impI)
  assume "path_info e path_arg files = (p, False)"
  then show "\<exists>r. set_task_status e task st path_arg files = Inr (r, files) \<and>
           \<not> updated r \<and> set_status_error r = Some (str ''not_found'')"
    by (simp add: set_task_status_def)
next
  assume "path_info e path_arg files = (p, True) \<and> load_file_lines files p = Inr lines \<and>
    (\<forall>l \<in> set lines. parsed_text l \<noteq> Some task)"
  then show "\<exists>r. set_task_status e task st path_arg files = Inr (r, files) \<and>
           \<not> updated r \<and> set_status_error r = Some (str ''task_not_found'')"
    using set_task_status_absent [of e path_arg files p lines task st] by simp
next
  assume "path_info e path_arg files = (p, True) \<and> load_file_lines files p = Inr lines \<and>
    j < length lines \<and> TASK_MARK_RE (lines ! j) = Some (mark, g2) \<and> strip g2 = task \<and>
    (\<forall>k < j. parsed_text (lines ! k) \<noteq> Some task)"
  then show "\<exists>r. set_task_status e task st path_arg files =
             Inr (r, save_file_lines p
                       (lines[j := str ''- '' @ mark_for st @ str '' '' @ g2]) files) \<and>
           updated r \<and> r = SetUpdated j st"
    using set_task_status_found [of e path_arg files p lines j mark g2 task st] by simp
next
  assume "st \<notin> snd ` set TASK_STATUS_MAP"
  then show "mark_for st = str ''[ ]''"
    by (simp add: mark_for_def dict_get_def STATUS_TO_MARK_eq TASK_STATUS_MAP_def)
qed

lemma set_task_status_DOC1:
  "set_task_status E0 (str ''run'') (str ''done'') (Some P0) [(P0, DOC1)] =
     Inr (SetUpdated 2 (str ''done''),
          [(P0, join_nl (LINES1[2 := str ''- [x] run  '']) @ [0x0A])])"
proof -
  have "\<forall>x \<in> set (take 2 LINES1). parsed_text x \<noteq> Some (str ''run'')"
    by (simp add: LINES1_def parsed_examples str_neq_examples)
  then have first: "\<forall>k < 2. parsed_text (LINES1 ! k) \<noteq> Some (str ''run'')"
    using all_nth_take [of 2 LINES1 "\<lambda>x. parsed_text x \<noteq> Some (str ''run'')"]
    by (simp add: length_LINES1)
  have m: "TASK_MARK_RE (LINES1 ! 2) = Some (str ''[>]'', str ''run  '')"
    by (simp add: nth_LINES1 matches_examples)
  have "set_task_status E0 (str ''run'') (str ''done'') (Some P0) [(P0, DOC1)] =
     Inr (SetUpdated 2 (str ''done''),
          save_file_lines P0
            (LINES1[2 := str ''- '' @ mark_for (str ''done'') @ str '' '' @ str ''run  '']) [(P0, DOC1)])"
    using path_info_P0 load_file_DOC1 _ m strip_examples(2) first
    by (rule set_task_status_found) (simp add: length_LINES1)
  moreover have "str ''- '' @ str ''[x]'' @ str '' '' @ str ''run  '' = str ''- [x] run  ''"
    by (simp add: str_def)
  ultimately show ?thesis
    by (simp add: mark_for_done save_file_lines_def)
qed

lemma replace_mark_DOC1:
  "replace_mark (LINES1 ! 2) (mark_for (str ''done'')) = str ''  - [x] run  ''"
  by (simp add: replace_mark_def nth_LINES1 mark_for_done) (simp add: str_def is_space_def)

theorem set_task_status_outcomes_witness:
  "(path_info E0 (Some P0) [] = (P0, False) \<and>
    (\<exists>r. set_task_status E0 (str ''run'') (str ''done'') (Some P0) [] = Inr (r, []) \<and>
         \<not> updated r \<and> set_status_error r = Some (str ''not_found''))) \<and>
   (path_info E0 (Some P0) [(P0, DOC1)] = (P0, True) \<and>
    load_file_lines [(P0, DOC1)] P0 = Inr LINES1 \<and>
    (\<exists>r. set_task_status E0 (str ''nope'') (str ''done'') (Some P0) [(P0, DOC1)] =
           Inr (r, [(P0, DOC1)]) \<and>
         \<not> updated r \<and> set_status_error r = Some (str ''task_not_found''))) \<and>
   (2 < length LINES1 \<and> TASK_MARK_RE (LINES1 ! 2) = Some (str ''[>]'', str ''run  '') \<and>
    strip (str ''run  '') = str ''run'' \<and>
    parsed_text (LINES1 ! 0) \<noteq> Some (str ''run'') \<and>
    parsed_text (LINES1 ! 1) \<noteq> Some (str ''run'') \<and>
    (\<exists>r. set_task_status E0 (str ''run'') (str ''done'') (Some P0) [(P0, DOC1)] =
           Inr (r, save_file_lines P0
                     (LINES1[2 := str ''- '' @ mark_for (str ''done'') @ str '' '' @ str ''run  ''])
                     [(P0, DOC1)]) \<and>
         updated r \<and> r = SetUpdated 2 (str ''done''))) \<and>
   (str ''urgent'' \<notin> snd ` set TASK_STATUS_MAP \<and> mark_for (str ''urgent'') = str ''[ ]'')"
proof -
  have absent: "path_info E0 (Some P0) [] = (P0, False)"
    by (simp add: path_info_def path_exists_def)
  have none: "\<forall>l \<in> set LINES1. parsed_text l \<noteq> Some (str ''nope'')"
    by (simp add: LINES1_def parsed_examples str_neq_examples)
  have "\<forall>x \<in> set (take 2 LINES1). parsed_text x \<noteq> Some (str ''run'')"
    by (simp add: LINES1_def parsed_examples str_neq_examples)
  then have first: "\<forall>k < 2. parsed_text (LINES1 ! k) \<noteq> Some (str ''run'')"
    using all_nth_take [of 2 LINES1 "\<lambda>x. parsed_text x \<noteq> Some (str ''run'')"]
    by (simp add: length_LINES1)
  have m: "TASK_MARK_RE (LINES1 ! 2) = Some (str ''[>]'', str ''run  '')"
    by (simp add: nth_LINES1 matches_examples)
  have len: "2 < length LINES1" by (simp add: length_LINES1)
  have unknown: "str ''urgent'' \<notin> snd ` set TASK_STATUS_MAP"
    by (simp add: TASK_STATUS_MAP_def str_def)
  note t1 = set_task_status_outcomes [of E0 "Some P0" "[]" P0 "str ''run''" "str ''done''"]
  note t2 = set_task_status_outcomes [of E0 "Some P0" "[(P0, DOC1)]" P0 "str ''nope''"
      "str ''done''" LINES1]
  note t3 = set_task_status_outcomes [of E0 "Some P0" "[(P0, DOC1)]" P0 "str ''run''"
      "str ''done''" LINES1 2 "str ''[>]''" "str ''run  ''"]
  note t4 = set_task_status_outcomes [of E0 "Some P0" "[]" P0 "str ''run''" "str ''urgent''"]
  have a: "\<exists>r. set_task_status E0 (str ''run'') (str ''done'') (Some P0) [] = Inr (r, []) \<and>
         \<not> updated r \<and> set_status_error r = Some (str ''not_found'')"
    by (rule mp [OF conjunct1 [OF t1] absent])
  have b: "\<exists>r. set_task_status E0 (str ''nope'') (str ''done'') (Some P0) [(P0, DOC1)] =
           Inr (r, [(P0, DOC1)]) \<and>
         \<not> updated r \<and> set_status_error r = Some (str ''task_not_found'')"
    by (rule mp [OF conjunct1 [OF conjunct2 [OF t2]]]) (intro conjI path_info_P0 load_file_DOC1 none)
  have c: "\<exists>r. set_task_status E0 (str ''run'') (str ''done'') (Some P0) [(P0, DOC1)] =
           Inr (r, save_file_lines P0
                     (LINES1[2 := str ''- '' @ mark_for (str ''done'') @ str '' '' @ str ''run  ''])
                     [(P0, DOC1)]) \<and>
         updated r \<and> r = SetUpdated 2 (str ''done'')"
    by (rule mp [OF conjunct1 [OF conjunct2 [OF conjunct2 [OF t3]]]])
      (intro conjI path_info_P0 load_file_DOC1 len m strip_examples(2) first)
  have d: "mark_for (str ''urgent'') = str ''[ ]''"
    by (rule mp [OF conjunct2 [OF conjunct2 [OF conjunct2 [OF t4]]] unknown])
  have p0: "parsed_text (LINES1 ! 0) \<noteq> Some (str ''run'')"
    by (rule mp [OF spec [OF first]]) simp
  have p1: "parsed_text (LINES1 ! 1) \<noteq> Some (str ''run'')"
    by (rule mp [OF spec [OF first]]) simp
  show ?thesis
    by (intro conjI absent a path_info_P0 load_file_DOC1 b len m strip_examples(2) p0 p1 c
        unknown d)
qed

text \<open>
  C3 as stated fails where it says that the rest of the line is left unchanged: the
  indented line \<^verbatim>\<open>"  - [>] run  "\<close> is written back as \<^verbatim>\<open>"- [x] run  "\<close>, while
  replacing the mark alone would give \<^verbatim>\<open>"  - [x] run  "\<close>.
\<close>

theorem set_task_status_rest_of_line_counterexample:
  "set_task_status E0 (str ''run'') (str ''done'') (Some P0) [(P0, DOC1)] =
     Inr (SetUpdated 2 (str ''done''),
          [(P0, join_nl (LINES1[2 := str ''- [x] run  '']) @ [0x0A])]) \<and>
   LINES1[2 := str ''- [x] run  ''] \<noteq>
   LINES1[2 := replace_mark (LINES1 ! 2) (mark_for (str ''done''))]"
proof -
  have "LINES1[2 := str ''- [x] run  ''] ! 2 \<noteq>
        LINES1[2 := replace_mark (LINES1 ! 2) (mark_for (str ''done''))] ! 2"
    by (simp add: length_LINES1 replace_mark_DOC1 str_neq_examples)
  then have "LINES1[2 := str ''- [x] run  ''] \<noteq>
        LINES1[2 := replace_mark (LINES1 ! 2) (mark_for (str ''done''))]"
    by (rule contrapos_nn) (rule arg_cong [where f = "\<lambda>xs. xs ! 2"])
  then show ?thesis using set_task_status_DOC1 by (intro conjI)
qed

lemma H2_examples:
  "\<not> H2_RE (str ''- [ ] early'')" "H2_RE (str ''## A'')" "\<not> H2_RE (str ''  - [>] run  '')"
  "\<not> H2_RE (str ''- [x] done'')" "\<not> H2_RE []" "H2_RE (str ''## B'')"
  by (simp_all add: H2_RE_def str_def is_space_def)

lemma heading_title_examples:
  "heading_title (str ''## A'') = str ''A''" "heading_title (str ''## B'') = str ''B''"
  by (simp_all add: heading_title_def strip_def lstrip_hash_def str_def is_space_def)

lemma sections_LINES1:
  "parse_sections LINES1 =
     [\<lparr>title = str ''A'', start = 1, end_idx = 4\<rparr>, \<lparr>title = str ''B'', start = 5, end_idx = 5\<rparr>]"
  by (simp add: parse_sections_def LINES1_def H2_examples heading_title_examples)

theorem sections_contiguous_witness:
  "parse_sections LINES1 =
     [\<lparr>title = str ''A'', start = 1, end_idx = 4\<rparr>, \<lparr>title = str ''B'', start = 5, end_idx = 5\<rparr>] \<and>
   Suc 0 < length (parse_sections LINES1) \<and>
   start (parse_sections LINES1 ! 0) < start (parse_sections LINES1 ! Suc 0) \<and>
   end_idx (parse_sections LINES1 ! 0) = start (parse_sections LINES1 ! Suc 0) - 1 \<and>
   parse_sections LINES1 \<noteq> [] \<and>
   end_idx (last (parse_sections LINES1)) = int (length LINES1) - 1 \<and>
   0 < length LINES1 \<and>
   \<not> (\<exists>s \<in> set (parse_sections LINES1). start s \<le> int 0 \<and> int 0 \<le> end_idx s) \<and>
   \<not> (\<exists>h \<le> 0. H2_RE (LINES1 ! h))"
proof -
  note t = sections_contiguous [of LINES1]
  have k: "Suc 0 < length (parse_sections LINES1)" by (simp add: sections_LINES1)
  have ne: "parse_sections LINES1 \<noteq> []" by (simp add: sections_LINES1)
  have pos: "0 < length LINES1" by (simp add: length_LINES1)
  have noh: "\<not> (\<exists>h \<le> 0. H2_RE (LINES1 ! h))" by (simp add: nth_LINES1 H2_examples)
  have adj: "start (parse_sections LINES1 ! 0) < start (parse_sections LINES1 ! Suc 0) \<and>
      end_idx (parse_sections LINES1 ! 0) = start (parse_sections LINES1 ! Suc 0) - 1"
    by (rule mp [OF spec [OF conjunct1 [OF conjunct2 [OF t]]] k])
  have lst: "end_idx (last (parse_sections LINES1)) = int (length LINES1) - 1"
    by (rule mp [OF conjunct1 [OF conjunct2 [OF conjunct2 [OF conjunct2 [OF t]]]] ne])
  have "(\<exists>s \<in> set (parse_sections LINES1). start s \<le> int 0 \<and> int 0 \<le> end_idx s) \<longleftrightarrow>
      (\<exists>h \<le> 0. H2_RE (LINES1 ! h))"
    by (rule mp [OF spec [OF conjunct2 [OF conjunct2 [OF conjunct2 [OF conjunct2 [OF t]]]]] pos])
  then have nos: "\<not> (\<exists>s \<in> set (parse_sections LINES1). start s \<le> int 0 \<and> int 0 \<le> end_idx s)"
    using noh by blast
  show ?thesis
    by (intro conjI sections_LINES1 k conjunct1 [OF adj] conjunct2 [OF adj] ne lst pos nos noh)
qed

subsection \<open>The insertion point\<close>

lemma py_get_in_range:
  "0 \<le> i \<Longrightarrow> i < int (length xs) \<Longrightarrow> py_get xs i = Inr (xs ! nat i)"
  by (simp add: py_get_def)

lemma scan_back_eq:
  "\<forall>i \<in> set idxs. 0 \<le> i \<and> i < int (length lines) \<Longrightarrow>
   scan_back lines idxs d =
     (case find (\<lambda>i. strip (lines ! nat i) \<noteq> []) idxs of
        None \<Rightarrow> Inr d
      | Some i \<Rightarrow> Inr (i + 1))"
  by (induction idxs) (simp_all add: py_get_in_range)

text \<open>
  The insertion point of \<^verbatim>\<open>add_task\<close> and \<^verbatim>\<open>append_note\<close> in a section \<open>(a, b)\<close> of the
  document: one past the last line after the heading that is not blank, and \<open>b\<close> itself
  when all of them are blank. No access is out of range.
\<close>

lemma insertion_point_eq:
  assumes "0 \<le> a" "b < int (length lines)"
  shows "insertion_point lines a b =
     (case find (\<lambda>i. strip (lines ! nat i) \<noteq> []) (rev [a + 1..b]) of
        None \<Rightarrow> Inr b
      | Some i \<Rightarrow> Inr (i + 1))"
  unfolding insertion_point_def using assms by (intro scan_back_eq) auto

lemma find_append_cases:
  "find P (xs @ ys) = (case find P xs of None \<Rightarrow> find P ys | Some x \<Rightarrow> Some x)"
  by (induction xs) auto

lemma insertion_point_after_last_nonblank:
  assumes "0 \<le> a" "b < int (length lines)" "a < i" "i \<le> b" "strip (lines ! nat i) \<noteq> []"
    "\<forall>j. i < j \<and> j \<le> b \<longrightarrow> strip (lines ! nat j) = []"
  shows "insertion_point lines a b = Inr (i + 1)"
proof -
  have split: "rev [a + 1..b] = rev [i + 1..b] @ i # rev [a + 1..i - 1]"
  proof -
    have "[a + 1..b] = [a + 1..i - 1] @ i # [i + 1..b]"
      using assms(3,4) by (intro upto_split3) auto
    then show ?thesis by simp
  qed
  have "find (\<lambda>i. strip (lines ! nat i) \<noteq> []) (rev [i + 1..b]) = None"
    using assms(6) by (simp add: find_None_iff)
  then have "find (\<lambda>i. strip (lines ! nat i) \<noteq> []) (rev [a + 1..b]) = Some i"
    unfolding split using assms(5) by (simp add: find_append_cases)
  then show ?thesis using insertion_point_eq [OF assms(1,2)] by simp
qed

lemma insertion_point_all_blank:
  assumes "0 \<le> a" "b < int (length lines)"
    "\<forall>j. a < j \<and> j \<le> b \<longrightarrow> strip (lines ! nat j) = []"
  shows "insertion_point lines a b = Inr b"
proof -
  have "find (\<lambda>i. strip (lines ! nat i) \<noteq> []) (rev [a + 1..b]) = None"
    using assms(3) by (simp add: find_None_iff)
  then show ?thesis using insertion_point_eq [OF assms(1,2)] by simp
qed

lemma insertion_point_total:
  assumes "section_range lines prefix = Some (a, b)"
  shows "\<exists>r. insertion_point lines a b = Inr r"
proof -
  from section_range_bounds [OF assms] have "0 \<le> a" "b < int (length lines)" by simp_all
  from insertion_point_eq [OF this] show ?thesis
    by (cases "find (\<lambda>i. strip (lines ! nat i) \<noteq> []) (rev [a + 1..b])") simp_all
qed

subsection \<open>Inserting keeps the other lines\<close>

lemma add_task_eq:
  assumes "path_info e path_arg files = (p, True)" "load_file_lines files p = Inr lines"
    "section_range lines prefix = Some (a, b)" "insertion_point lines a b = Inr r"
  shows "add_task e prefix task st path_arg files =
     Inr (Inserted r, save_file_lines p (py_insert lines r (str ''- '' @ mark_for st @ str '' '' @ task)) files)"
  using assms by (simp add: add_task_def)

lemma add_task_inserted:
  assumes "add_task e prefix task st path_arg files = Inr (Inserted k, files')"
  shows "\<exists>p lines j.
     path_info e path_arg files = (p, True) \<and> load_file_lines files p = Inr lines \<and>
     j \<le> length lines \<and>
     files' = save_file_lines p (take j lines @ [str ''- '' @ mark_for st @ str '' '' @ task] @ drop j lines) files"
proof -
  obtain p ex where pi: "path_info e path_arg files = (p, ex)"
    by (cases "path_info e path_arg files")
  have ex: "ex"
  proof (rule ccontr)
    assume "\<not> ex"
    then have "add_task e prefix task st path_arg files = Inr (AddNotFound p, files)"
      using pi by (simp add: add_task_def)
    then show False using assms by simp
  qed
  obtain lines where ld: "load_file_lines files p = Inr lines"
  proof (cases "load_file_lines files p")
    case (Inl err)
    then have "add_task e prefix task st path_arg files = Inl err"
      using pi ex by (simp add: add_task_def)
    then show ?thesis using assms by simp
  next
    case (Inr lines)
    then show ?thesis by (rule that)
  qed
  obtain a b where rg: "section_range lines prefix = Some (a, b)"
  proof (cases "section_range lines prefix")
    case None
    then have "add_task e prefix task st path_arg files = Inr (AddSectionNotFound, files)"
      using pi ex ld by (simp add: add_task_def)
    then show ?thesis using assms by simp
  next
    case (Some rng)
    then show ?thesis using that by (cases rng) simp
  qed
  obtain r where ip: "insertion_point lines a b = Inr r"
  proof (cases "insertion_point lines a b")
    case (Inl err)
    then have "add_task e prefix task st path_arg files = Inl err"
      using pi ex ld rg by (simp add: add_task_def)
    then show ?thesis using assms by simp
  next
    case (Inr r)
    then show ?thesis by (rule that)
  qed
  have pi': "path_info e path_arg files = (p, True)" using pi ex by simp
  have "save_file_lines p (py_insert lines r (str ''- '' @ mark_for st @ str '' '' @ task)) files = files'"
    using add_task_eq [OF pi' ld rg ip, of task st] assms by simp
  then have f: "files' = save_file_lines p (py_insert lines r (str ''- '' @ mark_for st @ str '' '' @ task)) files"
    by (rule sym)
  from py_insert_split [of lines r "str ''- '' @ mark_for st @ str '' '' @ task"]
  obtain j where j: "j \<le> length lines"
    "py_insert lines r (str ''- '' @ mark_for st @ str '' '' @ task) = take j lines @ [str ''- '' @ mark_for st @ str '' '' @ task] @ drop j lines"
    by (elim exE conjE)
  have g: "files' = save_file_lines p (take j lines @ [str ''- '' @ mark_for st @ str '' '' @ task] @ drop j lines) files"
    using f by (simp only: j(2))
  show ?thesis
    by (intro exI [of _ p] exI [of _ lines] exI [of _ j] conjI pi' ld j(1) g)
qed

lemma append_note_eq:
  assumes "path_info e path_arg files = (p, True)" "load_file_lines files p = Inr lines"
    "section_range lines prefix = Some (a, b)" "insertion_point lines a b = Inr r"
  shows "append_note e prefix note_line path_arg files =
     Inr (Appended r, save_file_lines p (py_insert lines r (str ''- '' @ note_line)) files)"
  using assms by (simp add: append_note_def)

lemma append_note_appended:
  assumes "append_note e prefix note_line path_arg files = Inr (Appended k, files')"
  shows "\<exists>p lines j.
     path_info e path_arg files = (p, True) \<and> load_file_lines files p = Inr lines \<and>
     j \<le> length lines \<and>
     files' = save_file_lines p (take j lines @ [str ''- '' @ note_line] @ drop j lines) files"
proof -
  obtain p ex where pi: "path_info e path_arg files = (p, ex)"
    by (cases "path_info e path_arg files")
  have ex: "ex"
  proof (rule ccontr)
    assume "\<not> ex"
    then have "append_note e prefix note_line path_arg files = Inr (NoteNotFound p, files)"
      using pi by (simp add: append_note_def)
    then show False using assms by simp
  qed
  obtain lines where ld: "load_file_lines files p = Inr lines"
  proof (cases "load_file_lines files p")
    case (Inl err)
    then have "append_note e prefix note_line path_arg files = Inl err"
      using pi ex by (simp add: append_note_def)
    then show ?thesis using assms by simp
  next
    case (Inr lines)
    then show ?thesis by (rule that)
  qed
  obtain a b where rg: "section_range lines prefix = Some (a, b)"
  proof (cases "section_range lines prefix")
    case None
    then have "append_note e prefix note_line path_arg files = Inr (NoteSectionNotFound, files)"
      using pi ex ld by (simp add: append_note_def)
    then show ?thesis using assms by simp
  next
    case (Some rng)
    then show ?thesis using that by (cases rng) simp
  qed
  obtain r where ip: "insertion_point lines a b = Inr r"
  proof (cases "insertion_point lines a b")
    case (Inl err)
    then have "append_note e prefix note_line path_arg files = Inl err"
      using pi ex ld rg by (simp add: append_note_def)
    then show ?thesis using assms by simp
  next
    case (Inr r)
    then show ?thesis by (rule that)
  qed
  have pi': "path_info e path_arg files = (p, True)" using pi ex by simp
  have "save_file_lines p (py_insert lines r (str ''- '' @ note_line)) files = files'"
    using append_note_eq [OF pi' ld rg ip, of note_line] assms by simp
  then have f: "files' = save_file_lines p (py_insert lines r (str ''- '' @ note_line)) files"
    by (rule sym)
  from py_insert_split [of lines r "str ''- '' @ note_line"]
  obtain j where j: "j \<le> length lines"
    "py_insert lines r (str ''- '' @ note_line) = take j lines @ [str ''- '' @ note_line] @ drop j lines"
    by (elim exE conjE)
  have g: "files' = save_file_lines p (take j lines @ [str ''- '' @ note_line] @ drop j lines) files"
    using f by (simp only: j(2))
  show ?thesis
    by (intro exI [of _ p] exI [of _ lines] exI [of _ j] conjI pi' ld j(1) g)
qed

text \<open>A call on an existing file with a matching section succeeds: no list access of the
  scan is out of range.\<close>

lemma add_task_succeeds:
  assumes "path_info e path_arg files = (p, True)" "load_file_lines files p = Inr lines"
    "section_range lines prefix = Some (a, b)"
  shows "\<exists>k files'. add_task e prefix task st path_arg files = Inr (Inserted k, files')"
proof -
  from insertion_point_total [OF assms(3)] obtain r where "insertion_point lines a b = Inr r"
    by (elim exE)
  from add_task_eq [OF assms this] show ?thesis by (intro exI)
qed

lemma append_note_succeeds:
  assumes "path_info e path_arg files = (p, True)" "load_file_lines files p = Inr lines"
    "section_range lines prefix = Some (a, b)"
  shows "\<exists>k files'. append_note e prefix note_line path_arg files = Inr (Appended k, files')"
proof -
  from insertion_point_total [OF assms(3)] obtain r where "insertion_point lines a b = Inr r"
    by (elim exE)
  from append_note_eq [OF assms this] show ?thesis by (intro exI)
qed

subsection \<open>Writing lines and reading them back\<close>

lemma not_linebreak_not_cr: "\<not> is_linebreak c \<Longrightarrow> c \<noteq> 0x0D"
  by (auto simp: is_linebreak_def)

lemma splitlines_from_line:
  "\<forall>c \<in> set l. \<not> is_linebreak c \<Longrightarrow>
   splitlines_from cur (l @ 0x0A # rest) = (cur @ l) # splitlines_from [] rest"
proof (induction l arbitrary: cur)
  case Nil
  show ?case by (cases rest) (simp_all add: is_linebreak_def)
next
  case (Cons c l)
  obtain d s where ds: "l @ 0x0A # rest = d # s" by (cases "l @ 0x0A # rest") auto
  have c: "\<not> is_linebreak c" "c \<noteq> 0x0D" using Cons.prems not_linebreak_not_cr by auto
  have "splitlines_from cur (c # d # s) = splitlines_from (cur @ [c]) (d # s)"
    using c by simp
  also have "\<dots> = (cur @ [c] @ l) # splitlines_from [] rest"
    using Cons.IH [of "cur @ [c]"] Cons.prems ds by simp
  finally show ?case using ds by simp
qed

lemma splitlines_concat:
  "\<forall>l \<in> set ls. \<forall>c \<in> set l. \<not> is_linebreak c \<Longrightarrow>
   splitlines (concat (map (\<lambda>l. l @ [0x0A]) ls)) = ls"
proof (induction ls)
  case Nil
  then show ?case by (simp add: splitlines_def)
next
  case (Cons l ls)
  then show ?case using splitlines_from_line [of l "[]" "concat (map (\<lambda>l. l @ [0x0A]) ls)"]
    by (simp add: splitlines_def)
qed

lemma join_nl_concat: "ls \<noteq> [] \<Longrightarrow> join_nl ls @ [0x0A] = concat (map (\<lambda>l. l @ [0x0A]) ls)"
  by (induction ls rule: join_nl.induct) simp_all

lemma universal_newlines_id: "0x0D \<notin> set s \<Longrightarrow> universal_newlines s = s"
  by (induction s rule: universal_newlines.induct) auto

lemma concat_lines_no_cr:
  "\<forall>l \<in> set ls. \<forall>c \<in> set l. \<not> is_linebreak c \<Longrightarrow>
   0x0D \<notin> set (concat (map (\<lambda>l. l @ [0x0A]) ls))"
  using not_linebreak_not_cr by (induction ls) auto

text \<open>A non-empty document whose lines hold no line boundary is read back as written.\<close>

lemma load_after_save:
  assumes "ls \<noteq> []" "\<forall>l \<in> set ls. \<forall>c \<in> set l. \<not> is_linebreak c"
  shows "load_file_lines (save_file_lines p ls files) p = Inr ls"
  using assms
  by (simp add: load_file_lines_def map_of_save_file_lines join_nl_concat
      universal_newlines_id [OF concat_lines_no_cr] splitlines_concat)

lemma splitlines_from_clean:
  "\<forall>c \<in> set cur. \<not> is_linebreak c \<Longrightarrow>
   \<forall>l \<in> set (splitlines_from cur s). \<forall>c \<in> set l. \<not> is_linebreak c"
proof (induction cur s rule: splitlines_from.induct)
  case (1 cur)
  then show ?case by simp
next
  case (2 cur c)
  then show ?case by simp
next
  case (3 cur c d s)
  show ?case
  proof (cases "c = 0x0D \<and> d = 0x0A")
    case True
    have "\<forall>l \<in> set (splitlines_from [] s). \<forall>c \<in> set l. \<not> is_linebreak c"
      by (rule "3.IH"(1) [OF True]) simp
    moreover have "splitlines_from cur (c # d # s) = cur # splitlines_from [] s"
      using True by simp
    ultimately show ?thesis using "3.prems" by simp
  next
    case False
    show ?thesis
    proof (cases "is_linebreak c")
      case True
      have "\<forall>l \<in> set (splitlines_from [] (d # s)). \<forall>c \<in> set l. \<not> is_linebreak c"
        by (rule "3.IH"(2) [OF False True]) simp
      moreover have "splitlines_from cur (c # d # s) = cur # splitlines_from [] (d # s)"
        by (simp only: splitlines_from.simps False True if_False if_True)
      ultimately show ?thesis using "3.prems" by simp
    next
      case nb: False
      have "\<forall>l \<in> set (splitlines_from (cur @ [c]) (d # s)). \<forall>c \<in> set l. \<not> is_linebreak c"
        by (rule "3.IH"(3) [OF False nb]) (simp add: "3.prems" nb)
      moreover have "splitlines_from cur (c # d # s) = splitlines_from (cur @ [c]) (d # s)"
        by (simp only: splitlines_from.simps False nb if_False)
      ultimately show ?thesis by simp
    qed
  qed
qed

text \<open>The lines of a file hold no line boundary, so no newline.\<close>

lemma loaded_lines_clean:
  "load_file_lines files p = Inr ls \<Longrightarrow> \<forall>l \<in> set ls. \<forall>c \<in> set l. \<not> is_linebreak c"
  using splitlines_from_clean [of "[]"]
  by (auto simp: load_file_lines_def splitlines_def split: option.splits)

lemma TEMPLATE_LINES_clean: "\<forall>l \<in> set TEMPLATE_LINES. \<forall>c \<in> set l. \<not> is_linebreak c"
  by (simp add: TEMPLATE_LINES_def str_def is_linebreak_def)

lemma splitlines_FALLBACK_TEMPLATE: "splitlines FALLBACK_TEMPLATE = TEMPLATE_LINES"
  unfolding FALLBACK_TEMPLATE_def by (rule splitlines_concat [OF TEMPLATE_LINES_clean])

lemma TEMPLATE_LINES_nonempty: "TEMPLATE_LINES \<noteq> []"
  by (simp add: TEMPLATE_LINES_def)

lemma load_template:
  "load_file_lines (save_file_lines p (splitlines FALLBACK_TEMPLATE) files) p = Inr TEMPLATE_LINES"
  by (simp add: splitlines_FALLBACK_TEMPLATE load_after_save TEMPLATE_LINES_nonempty
      TEMPLATE_LINES_clean)

subsection \<open>Rollover\<close>

lemma tasks_to_move_eq:
  "tasks_to_move lines = map (\<lambda>l. the (parsed_text l)) (filter rolls_over lines)"
proof (induction lines)
  case Nil
  then show ?case by simp
next
  case (Cons l ls)
  show ?case
  proof (cases "TASK_MARK_RE l")
    case None
    then show ?thesis using Cons by (simp add: rolls_over_def line_status_def)
  next
    case (Some mg)
    obtain mark g2 where mg: "mg = (mark, g2)" by (cases mg)
    show ?thesis using Cons Some mg
      by (simp add: rolls_over_def line_status_def parsed_text_def)
  qed
qed

lemma rollover_insert_at_nonneg: "0 \<le> rollover_insert_at new_lines"
proof (cases "section_range new_lines TARGET_EMOJI")
  case None
  show ?thesis
  proof (cases "section_range new_lines TARGET_TEXT")
    case None
    then show ?thesis using \<open>section_range new_lines TARGET_EMOJI = None\<close>
      by (simp add: rollover_insert_at_def)
  next
    case (Some rng)
    obtain a b where rng: "rng = (a, b)" by (cases rng)
    from section_range_bounds [OF Some [unfolded rng]] show ?thesis
      using \<open>section_range new_lines TARGET_EMOJI = None\<close> Some rng
      by (simp add: rollover_insert_at_def)
  qed
next
  case (Some rng)
  obtain a b where rng: "rng = (a, b)" by (cases rng)
  from section_range_bounds [OF Some [unfolded rng]] show ?thesis
    using Some rng by (simp add: rollover_insert_at_def)
qed

text \<open>What a rollover of an existing file does, with \<open>files1\<close> the files after tomorrow's
  file has been made sure of and \<open>old\<close> the lines then read from it.\<close>

lemma rollover_incomplete_eq:
  assumes "path_info e path_arg files = (p, True)" "load_file_lines files p = Inr lines"
    and "new_path = daily_path (DAILY_ROOT e) (tomorrow e)"
    and "files1 = (if path_exists files new_path then files
                   else save_file_lines new_path (splitlines FALLBACK_TEMPLATE) files)"
    and "load_file_lines files1 new_path = Inr old"
  shows "rollover_incomplete e path_arg files =
     Inr (Moved (length (tasks_to_move lines)) new_path,
          save_file_lines new_path
            (take (nat (rollover_insert_at old)) old @ map todo_line (tasks_to_move lines) @
             drop (nat (rollover_insert_at old)) old) files1)"
proof -
  have "insert_tasks old (rollover_insert_at old) (tasks_to_move lines) =
      take (nat (rollover_insert_at old)) old @ map todo_line (tasks_to_move lines) @
      drop (nat (rollover_insert_at old)) old"
    by (rule insert_tasks_eq [OF rollover_insert_at_nonneg])
  note ins = this
  show ?thesis
  proof (cases "path_exists files new_path")
    case True
    then have f1: "files1 = files" using assms(4) by simp
    have ex: "path_exists files (daily_path (DAILY_ROOT e) (tomorrow e))"
      using True assms(3) by simp
    have ld: "load_file_lines files (daily_path (DAILY_ROOT e) (tomorrow e)) = Inr old"
      using assms(5) f1 assms(3) by simp
    show ?thesis using assms(1,2) ex ld ins
      by (simp add: rollover_incomplete_def Let_def f1 assms(3) del: insert_tasks.simps)
  next
    case False
    then have f1: "files1 =
        save_file_lines (daily_path (DAILY_ROOT e) (tomorrow e)) (splitlines FALLBACK_TEMPLATE) files"
      using assms(3,4) by simp
    have ex: "\<not> path_exists files (daily_path (DAILY_ROOT e) (tomorrow e))"
      using False assms(3) by simp
    have ld: "load_file_lines
        (save_file_lines (daily_path (DAILY_ROOT e) (tomorrow e)) (splitlines FALLBACK_TEMPLATE) files)
        (daily_path (DAILY_ROOT e) (tomorrow e)) = Inr old"
      using assms(5) f1 assms(3) by simp
    show ?thesis using assms(1,2) ex ld ins
      by (simp add: rollover_incomplete_def Let_def f1 assms(3) del: insert_tasks.simps)
  qed
qed

lemma destination_lines:
  "\<exists>old. load_file_lines
      (if path_exists files new_path then files
       else save_file_lines new_path (splitlines FALLBACK_TEMPLATE) files) new_path = Inr old"
proof (cases "path_exists files new_path")
  case True
  then show ?thesis using load_file_lines_exists [of files new_path] by simp
next
  case False
  then show ?thesis using load_template [of new_path files] by simp
qed

lemma read_back:
  assumes "ls \<noteq> []" "\<forall>l \<in> set ls. \<forall>c \<in> set l. \<not> is_linebreak c"
  shows "splitlines (universal_newlines (join_nl ls @ [0x0A])) = ls"
  using assms
  by (simp add: join_nl_concat universal_newlines_id [OF concat_lines_no_cr] splitlines_concat)

subsection \<open>The rollover scenario\<close>

lemma TODAY0_neq_TOMORROW0: "TODAY0 \<noteq> TOMORROW0"
  by (simp add: TODAY0_def TOMORROW0_def str_def)

lemma path_info_today_SCENARIO: "path_info E0 None [(TODAY0, SCENARIO_DOC)] = (TODAY0, True)"
  by (simp add: path_info_def get_today_path_def today_path_E0 path_exists_def)

lemma SCENARIO_LINES_clean: "\<forall>l \<in> set SCENARIO_LINES. \<forall>c \<in> set l. \<not> is_linebreak c"
  by (simp add: SCENARIO_LINES_def str_def is_linebreak_def)

lemma load_SCENARIO: "load_file_lines [(TODAY0, SCENARIO_DOC)] TODAY0 = Inr SCENARIO_LINES"
  using read_back [OF _ SCENARIO_LINES_clean]
  by (simp add: load_file_lines_def SCENARIO_DOC_def) (simp add: SCENARIO_LINES_def)

lemma status_examples:
  "status_for (str ''[ ]'') = str ''todo''" "status_for (str ''[x]'') = str ''done''"
  "status_for (str ''[>]'') = str ''in_progress''"
  by (simp_all add: status_for_def dict_get_def TASK_STATUS_MAP_def lower_def lower_char_def str_def)

lemma tasks_to_move_SCENARIO:
  "tasks_to_move SCENARIO_LINES = [[0x9605, 0x8BFB], [0x5199, 0x5468, 0x62A5]]"
  by (simp add: SCENARIO_LINES_def TASK_MARK_RE_def str_def is_space_def is_mark_char_def
      status_for_def dict_get_def TASK_STATUS_MAP_def lower_def lower_char_def strip_def)

lemma sections_TEMPLATE_head:
  "find (\<lambda>sec. startswith (title sec) TARGET_EMOJI) (parse_sections TEMPLATE_LINES) =
     Some \<lparr>title = [0x1F3AF] @ str '' '' @ [0x4ECA, 0x65E5, 0x91CD, 0x70B9, 0x4EFB, 0x52A1],
           start = 4, end_idx = 8\<rparr>"
  by (simp add: parse_sections_eq TEMPLATE_LINES_def H2_RE_def str_def is_space_def
      heading_title_def strip_def lstrip_hash_def startswith_def TARGET_EMOJI_def)

lemma rollover_insert_at_TEMPLATE: "rollover_insert_at TEMPLATE_LINES = 9"
  by (simp add: rollover_insert_at_def section_range_def sections_TEMPLATE_head)

lemma load_tomorrow_SCENARIO:
  "load_file_lines
     (if path_exists [(TODAY0, SCENARIO_DOC)] TOMORROW0 then [(TODAY0, SCENARIO_DOC)]
      else save_file_lines TOMORROW0 (splitlines FALLBACK_TEMPLATE) [(TODAY0, SCENARIO_DOC)])
     TOMORROW0 = Inr TEMPLATE_LINES"
proof -
  have "\<not> path_exists [(TODAY0, SCENARIO_DOC)] TOMORROW0"
    using TODAY0_neq_TOMORROW0 by (simp add: path_exists_def)
  then show ?thesis by (simp add: load_template)
qed

lemma scenario_run:
  "rollover_incomplete E0 None [(TODAY0, SCENARIO_DOC)] =
     Inr (Moved 2 TOMORROW0,
          [(TOMORROW0, join_nl SCENARIO_RESULT @ [0x0A]), (TODAY0, SCENARIO_DOC)])"
proof -
  have ne: "\<not> path_exists [(TODAY0, SCENARIO_DOC)] TOMORROW0"
    using TODAY0_neq_TOMORROW0 by (simp add: path_exists_def)
  have "rollover_incomplete E0 None [(TODAY0, SCENARIO_DOC)] =
     Inr (Moved (length (tasks_to_move SCENARIO_LINES)) TOMORROW0,
          save_file_lines TOMORROW0
            (take (nat (rollover_insert_at TEMPLATE_LINES)) TEMPLATE_LINES @
             map todo_line (tasks_to_move SCENARIO_LINES) @
             drop (nat (rollover_insert_at TEMPLATE_LINES)) TEMPLATE_LINES)
            (if path_exists [(TODAY0, SCENARIO_DOC)] TOMORROW0 then [(TODAY0, SCENARIO_DOC)]
             else save_file_lines TOMORROW0 (splitlines FALLBACK_TEMPLATE)
                    [(TODAY0, SCENARIO_DOC)]))"
    by (rule rollover_incomplete_eq [OF path_info_today_SCENARIO load_SCENARIO
          tomorrow_path_E0 [symmetric] refl load_tomorrow_SCENARIO])
  also have "\<dots> = Inr (Moved 2 TOMORROW0,
          [(TOMORROW0, join_nl SCENARIO_RESULT @ [0x0A]), (TODAY0, SCENARIO_DOC)])"
    using ne TODAY0_neq_TOMORROW0
    by (simp add: tasks_to_move_SCENARIO rollover_insert_at_TEMPLATE todo_line_def
        save_file_lines_def SCENARIO_RESULT_def del: join_nl.simps)
  finally show ?thesis .
qed

lemma scenario_section:
  "section_range SCENARIO_RESULT TARGET_EMOJI = Some (4, 10)"
  by (simp add: section_range_def parse_sections_eq SCENARIO_RESULT_def TEMPLATE_LINES_def H2_RE_def
      str_def is_space_def heading_title_def strip_def lstrip_hash_def startswith_def
      TARGET_EMOJI_def)

lemma scenario_lines_9_10:
  "SCENARIO_RESULT ! 9 = str ''- [ ] '' @ [0x9605, 0x8BFB]"
  "SCENARIO_RESULT ! 10 = str ''- [ ] '' @ [0x5199, 0x5468, 0x62A5]"
  by (simp_all add: SCENARIO_RESULT_def TEMPLATE_LINES_def)

subsection \<open>Inserting into the example document\<close>

lemma range_LINES1_A: "section_range LINES1 (str ''A'') = Some (1, 4)"
  by (simp add: section_range_def sections_LINES1 startswith_def)

lemma strip_nth_LINES1:
  "strip (LINES1 ! nat 3) \<noteq> []" "strip (LINES1 ! nat 4) = []"
  by (simp_all add: LINES1_def strip_def str_def is_space_def)

lemma insertion_point_LINES1: "insertion_point LINES1 1 4 = Inr 4"
proof -
  have "\<forall>j. 3 < j \<and> j \<le> 4 \<longrightarrow> strip (LINES1 ! nat j) = []"
  proof (intro allI impI)
    fix j :: int assume "3 < j \<and> j \<le> 4"
    then have "j = 4" by simp
    then show "strip (LINES1 ! nat j) = []" using strip_nth_LINES1(2) by simp
  qed
  from insertion_point_after_last_nonblank [of 1 4 LINES1 3, OF _ _ _ _ strip_nth_LINES1(1) this]
  show ?thesis by (simp add: length_LINES1)
qed

lemma add_task_LINES1:
  "add_task E0 (str ''A'') (str ''new'') (str ''todo'') (Some P0) [(P0, DOC1)] =
     Inr (Inserted 4,
          save_file_lines P0
            (py_insert LINES1 4 (str ''- '' @ mark_for (str ''todo'') @ str '' '' @ str ''new''))
            [(P0, DOC1)])"
  by (rule add_task_eq [OF path_info_P0 load_file_DOC1 range_LINES1_A insertion_point_LINES1])

lemma append_note_LINES1:
  "append_note E0 (str ''A'') (str ''remark'') (Some P0) [(P0, DOC1)] =
     Inr (Appended 4,
          save_file_lines P0 (py_insert LINES1 4 (str ''- '' @ str ''remark'')) [(P0, DOC1)])"
  by (rule append_note_eq [OF path_info_P0 load_file_DOC1 range_LINES1_A insertion_point_LINES1])

subsection \<open>The task pattern\<close>




lemma TASK_MARK_RE_form:
  assumes "TASK_MARK_RE line = Some (mark, g2)"
  shows "\<exists>ws0 ws1 m ws2 tx.
     line = ws0 @ [0x2D] @ ws1 @ [0x5B, m, 0x5D] @ ws2 @ tx \<and>
     all_space ws0 \<and> all_space ws1 \<and> is_mark_char m \<and> all_space ws2 \<and>
     mark = [0x5B, m, 0x5D]"
proof -
  let ?ws0 = "takeWhile is_space line"
  obtain dash r1 where r1: "dropWhile is_space line = dash # r1"
    using assms by (cases "dropWhile is_space line") (simp_all add: TASK_MARK_RE_def)
  have dash: "dash = 0x2D"
    using assms r1 by (simp add: TASK_MARK_RE_def split: if_splits)
  let ?ws1 = "takeWhile is_space r1"
  obtain lb m rb r2 where r2: "dropWhile is_space r1 = lb # m # rb # r2"
  proof (cases "dropWhile is_space r1")
    case Nil
    show ?thesis using assms r1 dash
      by (simp add: TASK_MARK_RE_def Nil del: dropWhile_eq_Nil_conv)
  next
    case c1: (Cons lb t1)
    show ?thesis
    proof (cases t1)
      case Nil
      then show ?thesis using assms r1 dash c1 by (simp add: TASK_MARK_RE_def)
    next
      case c2: (Cons m t2)
      show ?thesis
      proof (cases t2)
        case Nil
        then show ?thesis using assms r1 dash c1 c2 by (simp add: TASK_MARK_RE_def)
      next
        case (Cons rb r2)
        then show ?thesis using c1 c2 that by simp
      qed
    qed
  qed
  have br: "lb = 0x5B" "is_mark_char m" "rb = 0x5D" "mark = [0x5B, m, 0x5D]"
    using assms r1 dash r2 by (simp_all add: TASK_MARK_RE_def Let_def split: if_splits)
  let ?ws2 = "takeWhile is_space r2"
  let ?tx = "dropWhile is_space r2"
  have "line = ?ws0 @ dropWhile is_space line" by simp
  also have "\<dots> = ?ws0 @ 0x2D # r1" using r1 dash by simp
  also have "r1 = ?ws1 @ dropWhile is_space r1" by simp
  also have "dropWhile is_space r1 = 0x5B # m # 0x5D # r2" using r2 br by simp
  also have "r2 = ?ws2 @ ?tx" by simp
  finally have eq: "line = ?ws0 @ [0x2D] @ ?ws1 @ [0x5B, m, 0x5D] @ ?ws2 @ ?tx" by simp
  have sp: "all_space ?ws0" "all_space ?ws1" "all_space ?ws2"
    by (auto simp: all_space_def dest: set_takeWhileD)
  show ?thesis
    by (intro exI [of _ ?ws0] exI [of _ ?ws1] exI [of _ m] exI [of _ ?ws2] exI [of _ ?tx]
        conjI eq sp br(2) br(4))
qed


lemma H3_not_task:
  assumes "H3_RE line"
  shows "TASK_MARK_RE line = None"
proof -
  obtain rest where line: "line = 0x23 # rest"
    using assms by (cases line) (simp_all add: H3_RE_def split: list.splits)
  have "dropWhile is_space line = 0x23 # rest"
    unfolding line by (simp add: is_space_def)
  then show ?thesis by (simp add: TASK_MARK_RE_def)
qed

subsection \<open>The task scanner\<close>

lemma iter_tasks_loop_indices:
  assumes "\<forall>i \<in> set idxs. 0 \<le> i \<and> i < int (length lines)"
  shows "\<exists>items. iter_tasks_loop lines parent idxs sub res = Inr items \<and>
     map line_index items =
       map line_index res @ filter (\<lambda>i. TASK_MARK_RE (lines ! nat i) \<noteq> None) idxs"
  using assms
proof (induction idxs arbitrary: sub res)
  case Nil
  then show ?case by simp
next
  case (Cons idx rest)
  have get: "py_get lines idx = Inr (lines ! nat idx)"
    using Cons.prems by (simp add: py_get_in_range)
  have rest: "\<forall>i \<in> set rest. 0 \<le> i \<and> i < int (length lines)"
    using Cons.prems by simp
  show ?case
  proof (cases "H3_RE (lines ! nat idx)")
    case True
    from Cons.IH [OF rest, of "Some (heading_title (lines ! nat idx))" res]
    show ?thesis using get True H3_not_task [OF True] by simp
  next
    case False
    show ?thesis
    proof (cases "TASK_MARK_RE (lines ! nat idx)")
      case None
      from Cons.IH [OF rest, of sub res]
      show ?thesis using get False None by simp
    next
      case (Some mg)
      obtain mark g2 where mg: "mg = (mark, g2)" by (cases mg)
      let ?item = "\<lparr>line_index = idx, raw = lines ! nat idx, status_mark = mark,
          status = status_for mark, task_text = strip g2,
          task_section = parent, task_subsection = sub\<rparr>"
      from Cons.IH [OF rest, of sub "res @ [?item]"]
      show ?thesis using get False Some mg by simp
    qed
  qed
qed

lemma iter_tasks_indices:
  assumes "0 \<le> a" "b < int (length lines)"
  shows "\<exists>items. iter_tasks lines a b parent = Inr items \<and>
     map line_index items = filter (\<lambda>i. TASK_MARK_RE (lines ! nat i) \<noteq> None) [a..b]"
proof -
  have "\<forall>i \<in> set [a..b]. 0 \<le> i \<and> i < int (length lines)" using assms by simp
  from iter_tasks_loop_indices [OF this, of parent None "[]"]
  show ?thesis by (simp add: iter_tasks_def)
qed






subsection \<open>Tasks before the first heading\<close>

lemma iter_tasks_in_range:
  assumes "0 \<le> a" "b < int (length lines)"
  shows "\<exists>items. iter_tasks lines a b parent = Inr items \<and>
     (\<forall>t \<in> set items. a \<le> line_index t \<and> line_index t \<le> b)"
proof -
  from iter_tasks_indices [OF assms, of parent] obtain items where
    run: "iter_tasks lines a b parent = Inr items" and
    idx: "map line_index items = filter (\<lambda>i. TASK_MARK_RE (lines ! nat i) \<noteq> None) [a..b]"
    by (elim exE conjE)
  have "\<forall>t \<in> set items. a \<le> line_index t \<and> line_index t \<le> b"
  proof
    fix t assume "t \<in> set items"
    then have "line_index t \<in> set (map line_index items)" by simp
    then have "line_index t \<in> set [a..b]" unfolding idx by simp
    then show "a \<le> line_index t \<and> line_index t \<le> b" by simp
  qed
  then show ?thesis using run by (intro exI [of _ items] conjI)
qed

lemma read_payload_in_sections:
  assumes "\<forall>s \<in> set secs. 0 \<le> start s \<and> end_idx s < int (length lines)"
  shows "\<exists>payload. read_payload lines secs = Inr payload \<and>
     (\<forall>sec \<in> set payload. \<forall>t \<in> set (payload_tasks sec).
        \<exists>s \<in> set secs. start s \<le> line_index t \<and> line_index t \<le> end_idx s)"
  using assms
proof (induction secs)
  case Nil
  then show ?case by simp
next
  case (Cons s secs)
  have b: "0 \<le> start s" "end_idx s < int (length lines)" using Cons.prems by simp_all
  from iter_tasks_in_range [OF b, of "title s"] obtain items where
    run: "iter_tasks lines (start s) (end_idx s) (title s) = Inr items" and
    rng: "\<forall>t \<in> set items. start s \<le> line_index t \<and> line_index t \<le> end_idx s"
    by (elim exE conjE)
  have "\<forall>s \<in> set secs. 0 \<le> start s \<and> end_idx s < int (length lines)"
    using Cons.prems by simp
  from Cons.IH [OF this] obtain payload where
    rest: "read_payload lines secs = Inr payload" and
    ih: "\<forall>sec \<in> set payload. \<forall>t \<in> set (payload_tasks sec).
        \<exists>s \<in> set secs. start s \<le> line_index t \<and> line_index t \<le> end_idx s"
    by (elim exE conjE)
  let ?p = "\<lparr>payload_title = title s, payload_range = (start s, end_idx s),
      payload_tasks = items\<rparr>"
  have val: "read_payload lines (s # secs) = Inr (?p # payload)"
    using run rest by simp
  have "\<forall>sec \<in> set (?p # payload). \<forall>t \<in> set (payload_tasks sec).
        \<exists>s' \<in> set (s # secs). start s' \<le> line_index t \<and> line_index t \<le> end_idx s'"
  proof (intro ballI)
    fix sec t assume sec: "sec \<in> set (?p # payload)" and t: "t \<in> set (payload_tasks sec)"
    show "\<exists>s' \<in> set (s # secs). start s' \<le> line_index t \<and> line_index t \<le> end_idx s'"
    proof (cases "sec = ?p")
      case True
      then have "t \<in> set items" using t by simp
      then have "start s \<le> line_index t \<and> line_index t \<le> end_idx s" using rng by simp
      then show ?thesis by simp
    next
      case False
      then have "sec \<in> set payload" using sec by simp
      then obtain s' where "s' \<in> set secs" "start s' \<le> line_index t \<and> line_index t \<le> end_idx s'"
        using ih t by meson
      then show ?thesis by auto
    qed
  qed
  then show ?case using val by (intro exI [of _ "?p # payload"] conjI)
qed

lemma read_structured_after_heading:
  assumes "path_info e path_arg files = (p, True)" "load_file_lines files p = Inr lines"
    "\<forall>h \<le> i. \<not> H2_RE (lines ! h)"
  shows "\<exists>payload. read_structured e path_arg files = Inr (ReadOk p payload) \<and>
     (\<forall>sec \<in> set payload. \<forall>t \<in> set (payload_tasks sec). line_index t \<noteq> int i)"
proof -
  have bounds: "\<forall>s \<in> set (parse_sections lines). 0 \<le> start s \<and> end_idx s < int (length lines)"
    using parse_sections_bounds by blast
  from read_payload_in_sections [OF bounds] obtain payload where
    run: "read_payload lines (parse_sections lines) = Inr payload" and
    inside: "\<forall>sec \<in> set payload. \<forall>t \<in> set (payload_tasks sec).
        \<exists>s \<in> set (parse_sections lines). start s \<le> line_index t \<and> line_index t \<le> end_idx s"
    by (elim exE conjE)
  have val: "read_structured e path_arg files = Inr (ReadOk p payload)"
    using assms(1,2) run by (simp add: read_structured_def)
  have "\<forall>sec \<in> set payload. \<forall>t \<in> set (payload_tasks sec). line_index t \<noteq> int i"
  proof (intro ballI)
    fix sec t assume "sec \<in> set payload" "t \<in> set (payload_tasks sec)"
    then obtain s where s: "s \<in> set (parse_sections lines)" "start s \<le> line_index t"
      using inside by meson
    from parse_sections_bounds [OF s(1)] have h: "0 \<le> start s" "H2_RE (lines ! nat (start s))"
      by simp_all
    have "\<not> nat (start s) \<le> i" using assms(3) h(2) by blast
    then have "int i < start s" using h(1) by linarith
    then show "line_index t \<noteq> int i" using s(2) by linarith
  qed
  then show ?thesis using val by (intro exI [of _ payload] conjI)
qed

lemma find_task_line_at_or_before:
  assumes "i < length lines" "TASK_MARK_RE (lines ! i) = Some (mark, g2)"
  shows "\<exists>j \<le> i. find_task_line lines (strip g2) = Some j \<and>
     ((\<forall>k < i. parsed_text (lines ! k) \<noteq> Some (strip g2)) \<longrightarrow> j = i) \<and>
     (\<exists>mark' g2'. TASK_MARK_RE (lines ! j) = Some (mark', g2') \<and> strip g2' = strip g2) \<and>
     j < length lines \<and> (\<forall>k < j. parsed_text (lines ! k) \<noteq> Some (strip g2))"
proof -
  have pi: "parsed_text (lines ! i) = Some (strip g2)"
    using assms(2) by (simp add: parsed_text_def)
  obtain j where j: "find_task_line lines (strip g2) = Some j"
  proof (cases "find_task_line lines (strip g2)")
    case None
    then have "parsed_text (lines ! i) \<noteq> Some (strip g2)"
      using assms(1) nth_mem [OF assms(1)] by (simp add: find_task_line_None)
    then show ?thesis using pi by simp
  next
    case (Some j)
    then show ?thesis by (rule that)
  qed
  from find_task_line_Some [OF j] have f: "j < length lines"
    "parsed_text (lines ! j) = Some (strip g2)"
    "\<forall>k < j. parsed_text (lines ! k) \<noteq> Some (strip g2)" by simp_all
  have le: "j \<le> i"
  proof (rule ccontr)
    assume "\<not> j \<le> i"
    then have "i < j" by simp
    then show False using f(3) pi by simp
  qed
  have first: "(\<forall>k < i. parsed_text (lines ! k) \<noteq> Some (strip g2)) \<longrightarrow> j = i"
  proof
    assume a: "\<forall>k < i. parsed_text (lines ! k) \<noteq> Some (strip g2)"
    have "\<not> j < i" using a f(2) by blast
    then show "j = i" using le by simp
  qed
  obtain mark' g2' where m: "TASK_MARK_RE (lines ! j) = Some (mark', g2')" "strip g2' = strip g2"
  proof (cases "TASK_MARK_RE (lines ! j)")
    case None
    then show ?thesis using f(2) by (simp add: parsed_text_def)
  next
    case (Some mg)
    obtain a b where "mg = (a, b)" by (cases mg)
    then show ?thesis using Some f(2) that by (simp add: parsed_text_def)
  qed
  have ex: "\<exists>mark' g2'. TASK_MARK_RE (lines ! j) = Some (mark', g2') \<and> strip g2' = strip g2"
    using m by (intro exI conjI)
  show ?thesis by (intro exI [of _ j] conjI le j first ex f(1) f(3))
qed

lemma rolled_text_moved:
  assumes "i < length lines" "TASK_MARK_RE (lines ! i) = Some (mark, g2)"
    "status_for mark \<in> {str ''todo'', str ''partial'', str ''in_progress''}"
  shows "strip g2 \<in> set (tasks_to_move lines)"
proof -
  have r: "rolls_over (lines ! i)"
    using assms(2,3) by (simp add: rolls_over_def line_status_def)
  have "lines ! i \<in> set (filter rolls_over lines)"
    using r nth_mem [OF assms(1)] by simp
  then have "the (parsed_text (lines ! i)) \<in> set (tasks_to_move lines)"
    unfolding tasks_to_move_eq by simp
  then show ?thesis using assms(2) by (simp add: parsed_text_def)
qed

lemma rollover_carries_text:
  assumes "path_info e path_arg files = (p, True)" "load_file_lines files p = Inr lines"
    "t \<in> set (tasks_to_move lines)"
  shows "\<exists>r files' new. rollover_incomplete e path_arg files = Inr (r, files') \<and>
     1 \<le> moved r \<and>
     map_of files' (daily_path (DAILY_ROOT e) (tomorrow e)) = Some (join_nl new @ [0x0A]) \<and>
     str ''- [ ] '' @ t \<in> set new"
proof -
  let ?np = "daily_path (DAILY_ROOT e) (tomorrow e)"
  let ?files1 = "if path_exists files ?np then files
                 else save_file_lines ?np (splitlines FALLBACK_TEMPLATE) files"
  from destination_lines [of files ?np] obtain old where
    old: "load_file_lines ?files1 ?np = Inr old" by (elim exE)
  let ?new = "take (nat (rollover_insert_at old)) old @ map todo_line (tasks_to_move lines) @
              drop (nat (rollover_insert_at old)) old"
  have run: "rollover_incomplete e path_arg files =
      Inr (Moved (length (tasks_to_move lines)) ?np, save_file_lines ?np ?new ?files1)"
    by (rule rollover_incomplete_eq [OF assms(1,2) refl refl old])
  have ne: "tasks_to_move lines \<noteq> []" using assms(3) by auto
  then have cnt: "1 \<le> moved (Moved (length (tasks_to_move lines)) ?np)"
    by (cases "tasks_to_move lines") simp_all
  have wr: "map_of (save_file_lines ?np ?new ?files1) ?np = Some (join_nl ?new @ [0x0A])"
    by (simp only: map_of_save_file_lines simp_thms if_True)
  have "todo_line t \<in> set (map todo_line (tasks_to_move lines))"
    using assms(3) by simp
  then have mem: "str ''- [ ] '' @ t \<in> set ?new" by (simp add: todo_line_def)
  show ?thesis
    by (intro exI [of _ "Moved (length (tasks_to_move lines)) ?np"]
        exI [of _ "save_file_lines ?np ?new ?files1"] exI [of _ ?new] conjI run cnt wr mem)
qed

text \<open>
  C10. For a task line \<open>i\<close> with no heading at or before it: the structured reading
  succeeds and none of the tasks it returns is line \<open>i\<close>; the lookup by the line's text
  finds a line \<open>j\<close> at or before \<open>i\<close> (line \<open>i\<close> itself when no earlier line has the same
  text) and \<^verbatim>\<open>set_task_status\<close> rewrites it; and when the line's status is todo, partial
  or in_progress, the rollover counts it and writes its text as a todo line into
  tomorrow's file.
\<close>

theorem task_before_first_heading:
  assumes "path_info e path_arg files = (p, True)" and "load_file_lines files p = Inr lines"
    and "i < length lines" and "TASK_MARK_RE (lines ! i) = Some (mark, g2)"
    and "\<forall>h \<le> i. \<not> H2_RE (lines ! h)"
  shows "(\<exists>payload. read_structured e path_arg files = Inr (ReadOk p payload) \<and>
            (\<forall>sec \<in> set payload. \<forall>t \<in> set (payload_tasks sec). line_index t \<noteq> int i)) \<and>
         (\<exists>j mark' g2'.
            j \<le> i \<and> find_task_line lines (strip g2) = Some j \<and>
            ((\<forall>k < i. parsed_text (lines ! k) \<noteq> Some (strip g2)) \<longrightarrow> j = i) \<and>
            TASK_MARK_RE (lines ! j) = Some (mark', g2') \<and>
            set_task_status e (strip g2) st path_arg files =
              Inr (SetUpdated j st,
                   save_file_lines p
                     (lines[j := str ''- '' @ mark_for st @ str '' '' @ g2']) files)) \<and>
         (status_for mark \<in> {str ''todo'', str ''partial'', str ''in_progress''} \<longrightarrow>
            strip g2 \<in> set (tasks_to_move lines) \<and>
            (\<exists>r files' new.
               rollover_incomplete e path_arg files = Inr (r, files') \<and> 1 \<le> moved r \<and>
               map_of files' (daily_path (DAILY_ROOT e) (tomorrow e)) =
                 Some (join_nl new @ [0x0A]) \<and>
               str ''- [ ] '' @ strip g2 \<in> set new))"
proof (intro conjI impI)
  show "\<exists>payload. read_structured e path_arg files = Inr (ReadOk p payload) \<and>
            (\<forall>sec \<in> set payload. \<forall>t \<in> set (payload_tasks sec). line_index t \<noteq> int i)"
    by (rule read_structured_after_heading [OF assms(1,2,5)])
next
  from find_task_line_at_or_before [OF assms(3,4)] obtain j mark' g2' where
    j: "j \<le> i" "find_task_line lines (strip g2) = Some j"
      "(\<forall>k < i. parsed_text (lines ! k) \<noteq> Some (strip g2)) \<longrightarrow> j = i"
      "TASK_MARK_RE (lines ! j) = Some (mark', g2')" "strip g2' = strip g2"
      "j < length lines" "\<forall>k < j. parsed_text (lines ! k) \<noteq> Some (strip g2)"
    by (elim exE conjE)
  have upd: "set_task_status e (strip g2) st path_arg files =
      Inr (SetUpdated j st,
           save_file_lines p (lines[j := str ''- '' @ mark_for st @ str '' '' @ g2']) files)"
    by (rule set_task_status_found [OF assms(1,2) j(6) j(4) j(5) j(7)])
  show "\<exists>j mark' g2'.
            j \<le> i \<and> find_task_line lines (strip g2) = Some j \<and>
            ((\<forall>k < i. parsed_text (lines ! k) \<noteq> Some (strip g2)) \<longrightarrow> j = i) \<and>
            TASK_MARK_RE (lines ! j) = Some (mark', g2') \<and>
            set_task_status e (strip g2) st path_arg files =
              Inr (SetUpdated j st,
                   save_file_lines p
                     (lines[j := str ''- '' @ mark_for st @ str '' '' @ g2']) files)"
    by (intro exI [of _ j] exI [of _ mark'] exI [of _ g2'] conjI j(1) j(2) j(3) j(4) upd)
next
  assume s: "status_for mark \<in> {str ''todo'', str ''partial'', str ''in_progress''}"
  show "strip g2 \<in> set (tasks_to_move lines)"
    by (rule rolled_text_moved [OF assms(3,4) s])
  then show "\<exists>r files' new.
               rollover_incomplete e path_arg files = Inr (r, files') \<and> 1 \<le> moved r \<and>
               map_of files' (daily_path (DAILY_ROOT e) (tomorrow e)) =
                 Some (join_nl new @ [0x0A]) \<and>
               str ''- [ ] '' @ strip g2 \<in> set new"
    by (rule rollover_carries_text [OF assms(1,2)])
qed

lemma no_heading_LINES1_0: "\<forall>h \<le> 0. \<not> H2_RE (LINES1 ! h)"
  by (simp add: nth_LINES1 H2_examples)

lemma match_LINES1_0: "TASK_MARK_RE (LINES1 ! 0) = Some (str ''[ ]'', str ''early'')"
  by (simp add: nth_LINES1 matches_examples)

theorem task_before_first_heading_witness:
  "path_info E0 (Some P0) [(P0, DOC1)] = (P0, True) \<and>
   load_file_lines [(P0, DOC1)] P0 = Inr LINES1 \<and>
   0 < length LINES1 \<and>
   TASK_MARK_RE (LINES1 ! 0) = Some (str ''[ ]'', str ''early'') \<and>
   \<not> H2_RE (LINES1 ! 0) \<and>
   status_for (str ''[ ]'') \<in> {str ''todo'', str ''partial'', str ''in_progress''} \<and>
   (\<exists>payload. read_structured E0 (Some P0) [(P0, DOC1)] = Inr (ReadOk P0 payload) \<and>
      (\<forall>sec \<in> set payload. \<forall>t \<in> set (payload_tasks sec). line_index t \<noteq> int 0)) \<and>
   (\<exists>j mark' g2'.
      j \<le> 0 \<and> find_task_line LINES1 (strip (str ''early'')) = Some j \<and>
      ((\<forall>k < 0. parsed_text (LINES1 ! k) \<noteq> Some (strip (str ''early''))) \<longrightarrow> j = 0) \<and>
      TASK_MARK_RE (LINES1 ! j) = Some (mark', g2') \<and>
      set_task_status E0 (strip (str ''early'')) (str ''done'') (Some P0) [(P0, DOC1)] =
        Inr (SetUpdated j (str ''done''),
             save_file_lines P0
               (LINES1[j := str ''- '' @ mark_for (str ''done'') @ str '' '' @ g2'])
               [(P0, DOC1)])) \<and>
   strip (str ''early'') \<in> set (tasks_to_move LINES1) \<and>
   (\<exists>r files' new.
      rollover_incomplete E0 (Some P0) [(P0, DOC1)] = Inr (r, files') \<and> 1 \<le> moved r \<and>
      map_of files' (daily_path (DAILY_ROOT E0) (tomorrow E0)) = Some (join_nl new @ [0x0A]) \<and>
      str ''- [ ] '' @ strip (str ''early'') \<in> set new)"
proof -
  have len: "0 < length LINES1" by (simp add: length_LINES1)
  have st: "status_for (str ''[ ]'') \<in> {str ''todo'', str ''partial'', str ''in_progress''}"
    by (simp add: status_for_def dict_get_def TASK_STATUS_MAP_def lower_def lower_char_def str_def)
  have nh: "\<not> H2_RE (LINES1 ! 0)" by (simp add: nth_LINES1 H2_examples)
  note t = task_before_first_heading [OF path_info_P0 load_file_DOC1 len match_LINES1_0
      no_heading_LINES1_0, of "str ''done''"]
  note t3 = mp [OF conjunct2 [OF conjunct2 [OF t]] st]
  show ?thesis
    by (intro conjI path_info_P0 load_file_DOC1 len match_LINES1_0 nh st conjunct1 [OF t]
        conjunct1 [OF conjunct2 [OF t]] conjunct1 [OF t3] conjunct2 [OF t3])
qed

subsection \<open>Inserting a line and reading the document back\<close>

lemma mark_for_cases:
  "mark_for st \<in> {str ''[ ]'', str ''[x]'', str ''[~]'', str ''[!]'', str ''[>]'', str ''[?]''}"
  by (simp add: mark_for_def dict_get_def STATUS_TO_MARK_eq)

lemma mark_for_clean: "\<forall>c \<in> set (mark_for st). \<not> is_linebreak c"
proof -
  have "\<forall>m \<in> {str ''[ ]'', str ''[x]'', str ''[~]'', str ''[!]'', str ''[>]'', str ''[?]''}.
      \<forall>c \<in> set m. \<not> is_linebreak c"
    by (simp add: str_def is_linebreak_def)
  then show ?thesis using mark_for_cases [of st] by (rule bspec)
qed

lemma dash_clean: "\<forall>c \<in> set (str ''- ''). \<not> is_linebreak c"
  "\<forall>c \<in> set (str '' ''). \<not> is_linebreak c"
  by (simp_all add: str_def is_linebreak_def)

lemma inserted_lines_clean:
  assumes "\<forall>l \<in> set lines. \<forall>c \<in> set l. \<not> is_linebreak c" "\<forall>c \<in> set new. \<not> is_linebreak c"
  shows "\<forall>l \<in> set (take j lines @ [new] @ drop j lines). \<forall>c \<in> set l. \<not> is_linebreak c"
proof
  fix l assume "l \<in> set (take j lines @ [new] @ drop j lines)"
  then consider "l \<in> set (take j lines)" | "l = new" | "l \<in> set (drop j lines)" by auto
  then show "\<forall>c \<in> set l. \<not> is_linebreak c"
  proof cases
    case 1
    then have "l \<in> set lines" by (rule in_set_takeD)
    then show ?thesis using assms(1) by simp
  next
    case 2
    then show ?thesis using assms(2) by simp
  next
    case 3
    then have "l \<in> set lines" by (rule in_set_dropD)
    then show ?thesis using assms(1) by simp
  qed
qed

lemma read_after_insert:
  assumes "load_file_lines files p = Inr lines" "\<forall>c \<in> set new. \<not> is_linebreak c"
  shows "load_file_lines (save_file_lines p (take j lines @ [new] @ drop j lines) files) p =
     Inr (take j lines @ [new] @ drop j lines)"
  by (rule load_after_save [OF _ inserted_lines_clean [OF loaded_lines_clean [OF assms(1)] assms(2)]])
    simp

text \<open>
  C5, as the program has it. After a successful \<^verbatim>\<open>add_task\<close> or \<^verbatim>\<open>append_note\<close> whose
  text holds no line boundary, the document read back from the file is the document read
  before with the new line put in at one place: one line more, the lines before the place
  and the lines after it as they were and in their order.
\<close>

theorem insertion_preserves_content:
  "(add_task e prefix task st path_arg files = Inr (Inserted k, files') \<and>
    (\<forall>c \<in> set task. \<not> is_linebreak c) \<longrightarrow>
      (\<exists>p lines j.
         path_info e path_arg files = (p, True) \<and> load_file_lines files p = Inr lines \<and>
         j \<le> length lines \<and>
         load_file_lines files' p =
           Inr (take j lines @ [str ''- '' @ mark_for st @ str '' '' @ task] @ drop j lines) \<and>
         length (take j lines @ [str ''- '' @ mark_for st @ str '' '' @ task] @ drop j lines) =
           length lines + 1)) \<and>
   (append_note e prefix note_line path_arg files = Inr (Appended k', files'') \<and>
    (\<forall>c \<in> set note_line. \<not> is_linebreak c) \<longrightarrow>
      (\<exists>p lines j.
         path_info e path_arg files = (p, True) \<and> load_file_lines files p = Inr lines \<and>
         j \<le> length lines \<and>
         load_file_lines files'' p = Inr (take j lines @ [str ''- '' @ note_line] @ drop j lines) \<and>
         length (take j lines @ [str ''- '' @ note_line] @ drop j lines) = length lines + 1))"
proof (intro conjI impI)
  assume a: "add_task e prefix task st path_arg files = Inr (Inserted k, files') \<and>
    (\<forall>c \<in> set task. \<not> is_linebreak c)"
  from add_task_inserted [OF conjunct1 [OF a]] obtain p lines j where
    f: "path_info e path_arg files = (p, True)" "load_file_lines files p = Inr lines"
      "j \<le> length lines"
      "files' = save_file_lines p
           (take j lines @ [str ''- '' @ mark_for st @ str '' '' @ task] @ drop j lines) files"
    by (elim exE conjE)
  have clean: "\<forall>c \<in> set (str ''- '' @ mark_for st @ str '' '' @ task). \<not> is_linebreak c"
    using dash_clean mark_for_clean [of st] conjunct2 [OF a] by (auto simp: ball_Un)
  have rd: "load_file_lines files' p =
      Inr (take j lines @ [str ''- '' @ mark_for st @ str '' '' @ task] @ drop j lines)"
    unfolding f(4) by (rule read_after_insert [OF f(2) clean])
  have len: "length (take j lines @ [str ''- '' @ mark_for st @ str '' '' @ task] @ drop j lines) =
      length lines + 1"
    using f(3) by simp
  show "\<exists>p lines j.
         path_info e path_arg files = (p, True) \<and> load_file_lines files p = Inr lines \<and>
         j \<le> length lines \<and>
         load_file_lines files' p =
           Inr (take j lines @ [str ''- '' @ mark_for st @ str '' '' @ task] @ drop j lines) \<and>
         length (take j lines @ [str ''- '' @ mark_for st @ str '' '' @ task] @ drop j lines) =
           length lines + 1"
    by (intro exI [of _ p] exI [of _ lines] exI [of _ j] conjI f(1) f(2) f(3) rd len)
next
  assume a: "append_note e prefix note_line path_arg files = Inr (Appended k', files'') \<and>
    (\<forall>c \<in> set note_line. \<not> is_linebreak c)"
  from append_note_appended [OF conjunct1 [OF a]] obtain p lines j where
    f: "path_info e path_arg files = (p, True)" "load_file_lines files p = Inr lines"
      "j \<le> length lines"
      "files'' = save_file_lines p (take j lines @ [str ''- '' @ note_line] @ drop j lines) files"
    by (elim exE conjE)
  have clean: "\<forall>c \<in> set (str ''- '' @ note_line). \<not> is_linebreak c"
    using dash_clean conjunct2 [OF a] by (auto simp: ball_Un)
  have rd: "load_file_lines files'' p =
      Inr (take j lines @ [str ''- '' @ note_line] @ drop j lines)"
    unfolding f(4) by (rule read_after_insert [OF f(2) clean])
  have len: "length (take j lines @ [str ''- '' @ note_line] @ drop j lines) = length lines + 1"
    using f(3) by simp
  show "\<exists>p lines j.
         path_info e path_arg files = (p, True) \<and> load_file_lines files p = Inr lines \<and>
         j \<le> length lines \<and>
         load_file_lines files'' p = Inr (take j lines @ [str ''- '' @ note_line] @ drop j lines) \<and>
         length (take j lines @ [str ''- '' @ note_line] @ drop j lines) = length lines + 1"
    by (intro exI [of _ p] exI [of _ lines] exI [of _ j] conjI f(1) f(2) f(3) rd len)
qed

lemma py_insert_LINES1_4: "py_insert LINES1 4 x = take 4 LINES1 @ [x] @ drop 4 LINES1"
  using py_insert_nonneg [of 4 LINES1 x] by simp

lemma read_back_add_task_LINES1:
  "load_file_lines
     (save_file_lines P0
        (py_insert LINES1 4 (str ''- '' @ mark_for (str ''todo'') @ str '' '' @ str ''new''))
        [(P0, DOC1)]) P0 =
   Inr [str ''- [ ] early'', str ''## A'', str ''  - [>] run  '', str ''- [x] done'',
        str ''- [ ] new'', [], str ''## B'']"
proof -
  have c: "\<forall>c \<in> set (str ''- '' @ mark_for (str ''todo'') @ str '' '' @ str ''new''). \<not> is_linebreak c"
    by (simp add: mark_for_todo) (simp add: str_def is_linebreak_def)
  have "take 4 LINES1 @ [str ''- '' @ mark_for (str ''todo'') @ str '' '' @ str ''new''] @
      drop 4 LINES1 =
      [str ''- [ ] early'', str ''## A'', str ''  - [>] run  '', str ''- [x] done'',
       str ''- [ ] new'', [], str ''## B'']"
    by (simp add: LINES1_def mark_for_todo) (simp add: str_def)
  then show ?thesis
    using read_after_insert [OF load_file_DOC1 c, of 4] by (simp add: py_insert_LINES1_4)
qed

lemma read_back_append_note_LINES1:
  "load_file_lines
     (save_file_lines P0 (py_insert LINES1 4 (str ''- '' @ str ''remark'')) [(P0, DOC1)]) P0 =
   Inr [str ''- [ ] early'', str ''## A'', str ''  - [>] run  '', str ''- [x] done'',
        str ''- remark'', [], str ''## B'']"
proof -
  have c: "\<forall>c \<in> set (str ''- '' @ str ''remark''). \<not> is_linebreak c"
    by (simp add: str_def is_linebreak_def)
  have "take 4 LINES1 @ [str ''- '' @ str ''remark''] @ drop 4 LINES1 =
      [str ''- [ ] early'', str ''## A'', str ''  - [>] run  '', str ''- [x] done'',
       str ''- remark'', [], str ''## B'']"
    by (simp add: LINES1_def) (simp add: str_def)
  then show ?thesis
    using read_after_insert [OF load_file_DOC1 c, of 4] by (simp add: py_insert_LINES1_4)
qed

theorem insertion_preserves_content_witness:
  "add_task E0 (str ''A'') (str ''new'') (str ''todo'') (Some P0) [(P0, DOC1)] =
     Inr (Inserted 4,
          save_file_lines P0
            (py_insert LINES1 4 (str ''- '' @ mark_for (str ''todo'') @ str '' '' @ str ''new''))
            [(P0, DOC1)]) \<and>
   (\<exists>p lines j.
      path_info E0 (Some P0) [(P0, DOC1)] = (p, True) \<and>
      load_file_lines [(P0, DOC1)] p = Inr lines \<and> j \<le> length lines \<and>
      load_file_lines
        (save_file_lines P0
           (py_insert LINES1 4 (str ''- '' @ mark_for (str ''todo'') @ str '' '' @ str ''new''))
           [(P0, DOC1)]) p =
        Inr (take j lines @ [str ''- '' @ mark_for (str ''todo'') @ str '' '' @ str ''new''] @
             drop j lines) \<and>
      length (take j lines @ [str ''- '' @ mark_for (str ''todo'') @ str '' '' @ str ''new''] @
              drop j lines) = length lines + 1) \<and>
   load_file_lines [(P0, DOC1)] P0 = Inr LINES1 \<and>
   load_file_lines
     (save_file_lines P0
        (py_insert LINES1 4 (str ''- '' @ mark_for (str ''todo'') @ str '' '' @ str ''new''))
        [(P0, DOC1)]) P0 =
     Inr [str ''- [ ] early'', str ''## A'', str ''  - [>] run  '', str ''- [x] done'',
          str ''- [ ] new'', [], str ''## B''] \<and>
   append_note E0 (str ''A'') (str ''remark'') (Some P0) [(P0, DOC1)] =
     Inr (Appended 4,
          save_file_lines P0 (py_insert LINES1 4 (str ''- '' @ str ''remark'')) [(P0, DOC1)]) \<and>
   (\<exists>p lines j.
      path_info E0 (Some P0) [(P0, DOC1)] = (p, True) \<and>
      load_file_lines [(P0, DOC1)] p = Inr lines \<and> j \<le> length lines \<and>
      load_file_lines
        (save_file_lines P0 (py_insert LINES1 4 (str ''- '' @ str ''remark'')) [(P0, DOC1)]) p =
        Inr (take j lines @ [str ''- '' @ str ''remark''] @ drop j lines) \<and>
      length (take j lines @ [str ''- '' @ str ''remark''] @ drop j lines) = length lines + 1) \<and>
   load_file_lines
     (save_file_lines P0 (py_insert LINES1 4 (str ''- '' @ str ''remark'')) [(P0, DOC1)]) P0 =
     Inr [str ''- [ ] early'', str ''## A'', str ''  - [>] run  '', str ''- [x] done'',
          str ''- remark'', [], str ''## B'']"
proof -
  note t = insertion_preserves_content [of E0 "str ''A''" "str ''new''" "str ''todo''" "Some P0"
      "[(P0, DOC1)]" 4
      "save_file_lines P0
        (py_insert LINES1 4 (str ''- '' @ mark_for (str ''todo'') @ str '' '' @ str ''new''))
        [(P0, DOC1)]"
      "str ''remark''" 4
      "save_file_lines P0 (py_insert LINES1 4 (str ''- '' @ str ''remark'')) [(P0, DOC1)]"]
  have c1: "\<forall>c \<in> set (str ''new''). \<not> is_linebreak c" by (simp add: str_def is_linebreak_def)
  have c2: "\<forall>c \<in> set (str ''remark''). \<not> is_linebreak c" by (simp add: str_def is_linebreak_def)
  show ?thesis
    by (intro conjI add_task_LINES1 append_note_LINES1 load_file_DOC1
        read_back_add_task_LINES1 read_back_append_note_LINES1
        mp [OF conjunct1 [OF t] conjI [OF add_task_LINES1 c1]]
        mp [OF conjunct2 [OF t] conjI [OF append_note_LINES1 c2]])
qed

text \<open>
  C5 as stated fails for a text that holds a line boundary: \<^verbatim>\<open>add_task\<close> with the text
  \<^verbatim>\<open>"x\ny"\<close> succeeds on the document of six lines, and the document read back has eight.
\<close>

theorem insertion_line_boundary_counterexample:
  "add_task E0 (str ''A'') (str ''x'' @ [0x0A] @ str ''y'') (str ''todo'') (Some P0) [(P0, DOC1)] =
     Inr (Inserted 4,
          save_file_lines P0
            (py_insert LINES1 4
               (str ''- '' @ mark_for (str ''todo'') @ str '' '' @ str ''x'' @ [0x0A] @ str ''y''))
            [(P0, DOC1)]) \<and>
   load_file_lines [(P0, DOC1)] P0 = Inr LINES1 \<and> length LINES1 = 6 \<and>
   load_file_lines
     (save_file_lines P0
        (py_insert LINES1 4
           (str ''- '' @ mark_for (str ''todo'') @ str '' '' @ str ''x'' @ [0x0A] @ str ''y''))
        [(P0, DOC1)]) P0 =
     Inr [str ''- [ ] early'', str ''## A'', str ''  - [>] run  '', str ''- [x] done'',
          str ''- [ ] x'', str ''y'', [], str ''## B''] \<and>
   length [str ''- [ ] early'', str ''## A'', str ''  - [>] run  '', str ''- [x] done'',
           str ''- [ ] x'', str ''y'', [], str ''## B''] = 8"
proof -
  have run: "add_task E0 (str ''A'') (str ''x'' @ [0x0A] @ str ''y'') (str ''todo'') (Some P0)
      [(P0, DOC1)] =
     Inr (Inserted 4,
          save_file_lines P0
            (py_insert LINES1 4
               (str ''- '' @ mark_for (str ''todo'') @ str '' '' @ str ''x'' @ [0x0A] @ str ''y''))
            [(P0, DOC1)])"
    by (rule add_task_eq [OF path_info_P0 load_file_DOC1 range_LINES1_A insertion_point_LINES1])
  have rd: "load_file_lines
     (save_file_lines P0
        (py_insert LINES1 4
           (str ''- '' @ mark_for (str ''todo'') @ str '' '' @ str ''x'' @ [0x0A] @ str ''y''))
        [(P0, DOC1)]) P0 =
     Inr [str ''- [ ] early'', str ''## A'', str ''  - [>] run  '', str ''- [x] done'',
          str ''- [ ] x'', str ''y'', [], str ''## B'']"
    by (simp add: load_file_lines_def map_of_save_file_lines py_insert_LINES1_4 mark_for_todo)
      (simp add: LINES1_def str_def splitlines_def is_linebreak_def)
  have len: "length [str ''- [ ] early'', str ''## A'', str ''  - [>] run  '', str ''- [x] done'',
           str ''- [ ] x'', str ''y'', [], str ''## B''] = 8"
    by simp
  show ?thesis by (intro conjI run load_file_DOC1 length_LINES1 rd len)
qed

subsection \<open>The statuses that roll over\<close>

lemma status_for_table:
  assumes "TASK_MARK_RE line = Some (mark, g2)"
  shows "map_of MARK_STATUS_TABLE mark = Some (status_for mark)"
proof -
  from TASK_MARK_RE_form [OF assms] obtain m where
    m: "is_mark_char m" "mark = [0x5B, m, 0x5D]" by (elim exE conjE)
  from m(1) consider "m = 0x20" | "m = 0x78" | "m = 0x58" | "m = 0x7E" | "m = 0x21"
    | "m = 0x3E" | "m = 0x3F"
    unfolding is_mark_char_def by (elim disjE)
  then show ?thesis
    by cases
      (simp_all add: m(2) MARK_STATUS_TABLE_def status_for_def dict_get_def TASK_STATUS_MAP_def
        lower_def lower_char_def str_def)
qed

lemma rolls_over_incomplete: "rolls_over line \<longleftrightarrow> incomplete_task line"
proof (cases "TASK_MARK_RE line")
  case None
  then show ?thesis
    by (simp add: rolls_over_def line_status_def incomplete_task_def task_status_def)
next
  case (Some mg)
  obtain mark g2 where mg: "mg = (mark, g2)" by (cases mg)
  from status_for_table [OF Some [unfolded mg]] show ?thesis
    using Some mg
    by (simp add: rolls_over_def line_status_def incomplete_task_def task_status_def)
qed

lemma filter_rolls_over: "filter rolls_over lines = filter incomplete_task lines"
  by (rule filter_cong [OF refl]) (simp add: rolls_over_incomplete)

text \<open>
  C1. A rollover of an existing file other than tomorrow's own takes exactly the lines
  that are tasks whose status, by the table of marks, is todo, partial or in_progress
  (so none with the mark of done, cancelled or need_help), in the order of the lines; it
  writes tomorrow's file as its lines \<open>old\<close> (the template's when the file was absent) with
  the parsed texts of these lines put in at one place, each as the line
  \<^verbatim>\<open>"- [ ] " + text\<close>, in that order; \<open>moved\<close> is their number; and the source file is
  left as it was.
\<close>

theorem rollover_moves_incomplete:
  assumes "path_info e path_arg files = (p, True)" and "load_file_lines files p = Inr lines"
    and "new_path = daily_path (DAILY_ROOT e) (tomorrow e)" and "p \<noteq> new_path"
  shows "\<exists>old k result files'.
     rollover_incomplete e path_arg files = Inr (result, files') \<and>
     load_file_lines
       (if path_exists files new_path then files
        else save_file_lines new_path (splitlines FALLBACK_TEMPLATE) files) new_path = Inr old \<and>
     k \<le> length old \<and>
     map_of files' new_path =
       Some (join_nl (take k old @
                      map (\<lambda>l. str ''- [ ] '' @ the (parsed_text l))
                        (filter incomplete_task lines) @
                      drop k old) @ [0x0A]) \<and>
     moved result = length (filter incomplete_task lines) \<and>
     map_of files' p = map_of files p"
proof -
  let ?files1 = "if path_exists files new_path then files
                 else save_file_lines new_path (splitlines FALLBACK_TEMPLATE) files"
  from destination_lines [of files new_path] obtain old where
    old: "load_file_lines ?files1 new_path = Inr old" by (elim exE)
  let ?k = "min (nat (rollover_insert_at old)) (length old)"
  let ?new = "take (nat (rollover_insert_at old)) old @ map todo_line (tasks_to_move lines) @
              drop (nat (rollover_insert_at old)) old"
  let ?files' = "save_file_lines new_path ?new ?files1"
  have run: "rollover_incomplete e path_arg files =
      Inr (Moved (length (tasks_to_move lines)) new_path, ?files')"
    by (rule rollover_incomplete_eq [OF assms(1,2,3) refl old])
  have texts: "map todo_line (tasks_to_move lines) =
      map (\<lambda>l. str ''- [ ] '' @ the (parsed_text l)) (filter incomplete_task lines)"
    by (simp add: tasks_to_move_eq filter_rolls_over todo_line_def comp_def)
  have tk: "take (nat (rollover_insert_at old)) old = take ?k old"
    "drop (nat (rollover_insert_at old)) old = drop ?k old"
    by (simp_all add: min_def)
  have written: "map_of ?files' new_path =
      Some (join_nl (take ?k old @
                     map (\<lambda>l. str ''- [ ] '' @ the (parsed_text l)) (filter incomplete_task lines) @
                     drop ?k old) @ [0x0A])"
    by (simp only: map_of_save_file_lines texts tk simp_thms if_True)
  have source: "map_of ?files' p = map_of files p"
    using assms(4) by (simp add: map_of_save_file_lines)
  have count: "moved (Moved (length (tasks_to_move lines)) new_path) =
      length (filter incomplete_task lines)"
    by (simp add: tasks_to_move_eq filter_rolls_over)
  have k: "?k \<le> length old" by simp
  show ?thesis
    by (intro exI [of _ old] exI [of _ ?k]
        exI [of _ "Moved (length (tasks_to_move lines)) new_path"] exI [of _ ?files']
        conjI run old k written count source)
qed

lemma LINES7_clean: "\<forall>l \<in> set LINES7. \<forall>c \<in> set l. \<not> is_linebreak c"
  by (simp add: LINES7_def str_def is_linebreak_def)

lemma load_DOC7: "load_file_lines [(TODAY0, DOC7)] TODAY0 = Inr LINES7"
  using read_back [OF _ LINES7_clean]
  by (simp add: load_file_lines_def DOC7_def) (simp add: LINES7_def)

lemma path_info_today_DOC7: "path_info E0 None [(TODAY0, DOC7)] = (TODAY0, True)"
  by (simp add: path_info_def get_today_path_def today_path_E0 path_exists_def)

lemma incomplete_LINES7:
  "filter incomplete_task LINES7 = [str ''- [ ] a'', str ''- [~] c'', str ''- [>] e'']"
  by (simp add: LINES7_def incomplete_task_def task_status_def TASK_MARK_RE_def
      MARK_STATUS_TABLE_def str_def is_space_def is_mark_char_def)

lemma texts_LINES7:
  "map (\<lambda>l. str ''- [ ] '' @ the (parsed_text l))
     [str ''- [ ] a'', str ''- [~] c'', str ''- [>] e''] =
   [str ''- [ ] a'', str ''- [ ] c'', str ''- [ ] e'']"
  by (simp add: parsed_text_def TASK_MARK_RE_def strip_def str_def is_space_def is_mark_char_def)

lemma load_tomorrow_DOC7:
  "load_file_lines
     (if path_exists [(TODAY0, DOC7)] TOMORROW0 then [(TODAY0, DOC7)]
      else save_file_lines TOMORROW0 (splitlines FALLBACK_TEMPLATE) [(TODAY0, DOC7)])
     TOMORROW0 = Inr TEMPLATE_LINES"
proof -
  have "\<not> path_exists [(TODAY0, DOC7)] TOMORROW0"
    using TODAY0_neq_TOMORROW0 by (simp add: path_exists_def)
  then show ?thesis by (simp add: load_template)
qed

theorem rollover_moves_incomplete_witness:
  "path_info E0 None [(TODAY0, DOC7)] = (TODAY0, True) \<and>
   load_file_lines [(TODAY0, DOC7)] TODAY0 = Inr LINES7 \<and>
   TOMORROW0 = daily_path (DAILY_ROOT E0) (tomorrow E0) \<and> TODAY0 \<noteq> TOMORROW0 \<and>
   filter incomplete_task LINES7 = [str ''- [ ] a'', str ''- [~] c'', str ''- [>] e''] \<and>
   (\<exists>k result files'.
      rollover_incomplete E0 None [(TODAY0, DOC7)] = Inr (result, files') \<and>
      k \<le> length TEMPLATE_LINES \<and>
      map_of files' TOMORROW0 =
        Some (join_nl (take k TEMPLATE_LINES @
                       [str ''- [ ] a'', str ''- [ ] c'', str ''- [ ] e''] @
                       drop k TEMPLATE_LINES) @ [0x0A]) \<and>
      moved result = 3 \<and>
      map_of files' TODAY0 = Some DOC7)"
proof -
  note t = rollover_moves_incomplete [OF path_info_today_DOC7 load_DOC7
      tomorrow_path_E0 [symmetric] TODAY0_neq_TOMORROW0]
  from t obtain old k result files' where
    run: "rollover_incomplete E0 None [(TODAY0, DOC7)] = Inr (result, files')" and
    old: "load_file_lines
       (if path_exists [(TODAY0, DOC7)] TOMORROW0 then [(TODAY0, DOC7)]
        else save_file_lines TOMORROW0 (splitlines FALLBACK_TEMPLATE) [(TODAY0, DOC7)])
       TOMORROW0 = Inr old" and
    k: "k \<le> length old" and
    wr: "map_of files' TOMORROW0 =
       Some (join_nl (take k old @
                      map (\<lambda>l. str ''- [ ] '' @ the (parsed_text l))
                        (filter incomplete_task LINES7) @
                      drop k old) @ [0x0A])" and
    cnt: "moved result = length (filter incomplete_task LINES7)" and
    src: "map_of files' TODAY0 = map_of [(TODAY0, DOC7)] TODAY0"
    by (elim exE conjE)
  have o: "old = TEMPLATE_LINES" using old load_tomorrow_DOC7 by simp
  have k': "k \<le> length TEMPLATE_LINES" using k o by simp
  have wr': "map_of files' TOMORROW0 =
        Some (join_nl (take k TEMPLATE_LINES @
                       [str ''- [ ] a'', str ''- [ ] c'', str ''- [ ] e''] @
                       drop k TEMPLATE_LINES) @ [0x0A])"
    using wr by (simp only: o incomplete_LINES7 texts_LINES7)
  have cnt': "moved result = 3" using cnt by (simp add: incomplete_LINES7)
  have src': "map_of files' TODAY0 = Some DOC7" using src by simp
  have ex: "\<exists>k result files'.
      rollover_incomplete E0 None [(TODAY0, DOC7)] = Inr (result, files') \<and>
      k \<le> length TEMPLATE_LINES \<and>
      map_of files' TOMORROW0 =
        Some (join_nl (take k TEMPLATE_LINES @
                       [str ''- [ ] a'', str ''- [ ] c'', str ''- [ ] e''] @
                       drop k TEMPLATE_LINES) @ [0x0A]) \<and>
      moved result = 3 \<and>
      map_of files' TODAY0 = Some DOC7"
    by (intro exI [of _ k] exI [of _ result] exI [of _ files'] conjI run k' wr' cnt' src')
  show ?thesis
    by (intro conjI path_info_today_DOC7 load_DOC7 tomorrow_path_E0 [symmetric]
        TODAY0_neq_TOMORROW0 incomplete_LINES7 ex)
qed

subsection \<open>The destination of a rollover\<close>

lemma find_over_map: "find P (map f xs) = map_option f (find (\<lambda>x. P (f x)) xs)"
  by (induction xs) simp_all

lemma upt_0_Cons: "[0..<length (l # ls)] = 0 # map Suc [0..<length ls]"
  by (simp add: upt_conv_Cons map_Suc_upt del: upt_Suc)

lemma find_sections_from:
  "find (\<lambda>sec. startswith (title sec) p) (sections_from i ls) =
   map_option
     (\<lambda>j. \<lparr>title = heading_title (ls ! j), start = int (i + j),
           end_idx = int (i + j) + int (length (takeWhile (\<lambda>l. \<not> H2_RE l) (drop (Suc j) ls)))\<rparr>)
     (find (\<lambda>j. title_starts p (ls ! j)) [0..<length ls])"
proof (induction ls arbitrary: i)
  case Nil
  show ?case by simp
next
  case (Cons l ls)
  show ?case
  proof (cases "title_starts p l")
    case True
    then show ?thesis
      by (simp only: upt_0_Cons) (simp add: title_starts_def startswith_def)
  next
    case False
    have "find (\<lambda>sec. startswith (title sec) p) (sections_from i (l # ls)) =
          find (\<lambda>sec. startswith (title sec) p) (sections_from (i + 1) ls)"
      using False by (simp add: title_starts_def startswith_def)
    also have "\<dots> = map_option
       (\<lambda>j. \<lparr>title = heading_title (ls ! j), start = int (i + 1 + j),
             end_idx = int (i + 1 + j) + int (length (takeWhile (\<lambda>l. \<not> H2_RE l) (drop (Suc j) ls)))\<rparr>)
       (find (\<lambda>j. title_starts p (ls ! j)) [0..<length ls])"
      by (rule Cons.IH)
    also have "\<dots> = map_option
       (\<lambda>j. \<lparr>title = heading_title ((l # ls) ! j), start = int (i + j),
             end_idx = int (i + j) +
               int (length (takeWhile (\<lambda>l. \<not> H2_RE l) (drop (Suc j) (l # ls))))\<rparr>)
       (find (\<lambda>j. title_starts p ((l # ls) ! j)) [0..<length (l # ls)])"
      using False
      by (simp only: upt_0_Cons) (simp add: find_over_map option.map_comp comp_def add.assoc add.left_commute)
    finally show ?thesis .
  qed
qed

lemma section_range_first_titled:
  "section_range lines p =
     map_option (\<lambda>h. (int h, int (section_last lines h))) (first_titled lines p)"
  by (simp add: section_range_def parse_sections_eq find_sections_from first_titled_def
      section_last_def split: option.split)

lemma first_titled_Some_iff:
  "first_titled lines p = Some h \<longleftrightarrow>
     h < length lines \<and> title_starts p (lines ! h) \<and> (\<forall>j<h. \<not> title_starts p (lines ! j))"
  by (auto simp add: first_titled_def find_Some_iff)

lemma first_titled_None_iff:
  "first_titled lines p = None \<longleftrightarrow> (\<forall>j<length lines. \<not> title_starts p (lines ! j))"
  by (auto simp add: first_titled_def find_None_iff)

lemma section_last_bound: "h < length lines \<Longrightarrow> section_last lines h + 1 \<le> length lines"
proof -
  assume h: "h < length lines"
  have "length (takeWhile (\<lambda>l. \<not> H2_RE l) (drop (Suc h) lines)) \<le> length (drop (Suc h) lines)"
    by (rule length_takeWhile_le)
  then show ?thesis using h by (simp add: section_last_def)
qed

lemma rollover_insert_at_destination: "rollover_insert_at old = int (destination old)"
  by (simp add: rollover_insert_at_def section_range_first_titled destination_def
      TARGET_EMOJI_def TARGET_TEXT_def split: option.split)

lemma destination_bound: "destination old \<le> length old"
proof (cases "first_titled old [0x1F3AF]")
  case (Some h)
  then have "h < length old" by (simp add: first_titled_Some_iff)
  from section_last_bound [OF this] Some show ?thesis by (simp add: destination_def)
next
  case None
  show ?thesis
  proof (cases "first_titled old [0x4ECA, 0x65E5, 0x91CD, 0x70B9, 0x4EFB, 0x52A1]")
    case (Some h)
    then have "h < length old" by (simp add: first_titled_Some_iff)
    from section_last_bound [OF this] Some None show ?thesis by (simp add: destination_def)
  next
    case N2: None
    with None show ?thesis by (simp add: destination_def)
  qed
qed

lemma destination_none:
  "first_titled old [0x1F3AF] = None \<Longrightarrow>
   first_titled old [0x4ECA, 0x65E5, 0x91CD, 0x70B9, 0x4EFB, 0x52A1] = None \<Longrightarrow>
   destination old = length old"
  by (simp add: destination_def)

lemma scenario_first_titled:
  "first_titled SCENARIO_RESULT [0x1F3AF] = Some 4" "section_last SCENARIO_RESULT 4 = 10"
  by (simp_all add: first_titled_def section_last_def title_starts_def SCENARIO_RESULT_def
      TEMPLATE_LINES_def H2_RE_def str_def is_space_def heading_title_def strip_def
      lstrip_hash_def)

lemma destination_examples:
  "destination TEMPLATE_LINES = 9" "destination BOTH_LINES = 5" "destination TEXT_LINES = 4"
  "destination NONE_LINES = 4"
  by (simp_all add: destination_def first_titled_def section_last_def title_starts_def
      TEMPLATE_LINES_def BOTH_LINES_def TEXT_LINES_def NONE_LINES_def
      H2_RE_def str_def is_space_def heading_title_def strip_def lstrip_hash_def)

lemma existing_tomorrow:
  assumes "ls \<noteq> []" and "\<forall>l \<in> set ls. \<forall>c \<in> set l. \<not> is_linebreak c"
    and "d = join_nl ls @ [0x0A]"
  shows "path_info E0 None [(TODAY0, SCENARIO_DOC), (TOMORROW0, d)] = (TODAY0, True)"
    and "load_file_lines [(TODAY0, SCENARIO_DOC), (TOMORROW0, d)] TODAY0 = Inr SCENARIO_LINES"
    and "load_file_lines
           (if path_exists [(TODAY0, SCENARIO_DOC), (TOMORROW0, d)] TOMORROW0
            then [(TODAY0, SCENARIO_DOC), (TOMORROW0, d)]
            else save_file_lines TOMORROW0 (splitlines FALLBACK_TEMPLATE)
                   [(TODAY0, SCENARIO_DOC), (TOMORROW0, d)])
           TOMORROW0 = Inr ls"
proof -
  show "path_info E0 None [(TODAY0, SCENARIO_DOC), (TOMORROW0, d)] = (TODAY0, True)"
    by (simp add: path_info_def get_today_path_def today_path_E0 path_exists_def)
  show "load_file_lines [(TODAY0, SCENARIO_DOC), (TOMORROW0, d)] TODAY0 = Inr SCENARIO_LINES"
    using load_SCENARIO by (simp add: load_file_lines_def)
  have ex: "path_exists [(TODAY0, SCENARIO_DOC), (TOMORROW0, d)] TOMORROW0"
    by (simp add: path_exists_def)
  have "load_file_lines [(TODAY0, SCENARIO_DOC), (TOMORROW0, d)] TOMORROW0 = Inr ls"
    using TODAY0_neq_TOMORROW0 read_back [OF assms(1,2)]
    by (simp add: load_file_lines_def assms(3))
  then show "load_file_lines
           (if path_exists [(TODAY0, SCENARIO_DOC), (TOMORROW0, d)] TOMORROW0
            then [(TODAY0, SCENARIO_DOC), (TOMORROW0, d)]
            else save_file_lines TOMORROW0 (splitlines FALLBACK_TEMPLATE)
                   [(TODAY0, SCENARIO_DOC), (TOMORROW0, d)])
           TOMORROW0 = Inr ls"
    using ex by simp
qed

lemma tomorrow_lines_clean:
  "BOTH_LINES \<noteq> [] \<and> (\<forall>l \<in> set BOTH_LINES. \<forall>c \<in> set l. \<not> is_linebreak c)"
  "TEXT_LINES \<noteq> [] \<and> (\<forall>l \<in> set TEXT_LINES. \<forall>c \<in> set l. \<not> is_linebreak c)"
  "NONE_LINES \<noteq> [] \<and> (\<forall>l \<in> set NONE_LINES. \<forall>c \<in> set l. \<not> is_linebreak c)"
  by (simp_all add: BOTH_LINES_def TEXT_LINES_def NONE_LINES_def str_def is_linebreak_def)

lemma existing_saved:
  "save_file_lines TOMORROW0 ls
     (if path_exists [(TODAY0, SCENARIO_DOC), (TOMORROW0, d)] TOMORROW0
      then [(TODAY0, SCENARIO_DOC), (TOMORROW0, d)]
      else save_file_lines TOMORROW0 (splitlines FALLBACK_TEMPLATE)
             [(TODAY0, SCENARIO_DOC), (TOMORROW0, d)]) =
   [(TOMORROW0, join_nl ls @ [0x0A]), (TODAY0, SCENARIO_DOC)]"
  using TODAY0_neq_TOMORROW0 by (simp add: path_exists_def save_file_lines_def del: join_nl.simps)

lemma rolled_SCENARIO:
  "map todo_line (tasks_to_move SCENARIO_LINES) =
     [str ''- [ ] '' @ [0x9605, 0x8BFB], str ''- [ ] '' @ [0x5199, 0x5468, 0x62A5]]"
  "length (tasks_to_move SCENARIO_LINES) = 2"
  by (simp_all add: tasks_to_move_SCENARIO todo_line_def)

lemma tomorrow_results:
  "take 5 BOTH_LINES @
     [str ''- [ ] '' @ [0x9605, 0x8BFB], str ''- [ ] '' @ [0x5199, 0x5468, 0x62A5]] @
     drop 5 BOTH_LINES =
   [str ''# plan'',
    str ''## '' @ [0x4ECA, 0x65E5, 0x91CD, 0x70B9, 0x4EFB, 0x52A1],
    str ''- [ ] t'',
    str ''## '' @ [0x1F3AF] @ str '' goals'',
    str ''- [ ] g'',
    str ''- [ ] '' @ [0x9605, 0x8BFB],
    str ''- [ ] '' @ [0x5199, 0x5468, 0x62A5],
    str ''## notes'',
    str ''n'']"
  "take 4 TEXT_LINES @
     [str ''- [ ] '' @ [0x9605, 0x8BFB], str ''- [ ] '' @ [0x5199, 0x5468, 0x62A5]] @
     drop 4 TEXT_LINES =
   [str ''## my '' @ [0x1F3AF],
    str ''x'',
    str ''## '' @ [0x4ECA, 0x65E5, 0x91CD, 0x70B9, 0x4EFB, 0x52A1] @ str '' now'',
    str ''- [ ] t'',
    str ''- [ ] '' @ [0x9605, 0x8BFB],
    str ''- [ ] '' @ [0x5199, 0x5468, 0x62A5],
    str ''## notes'']"
  "take 4 NONE_LINES @
     [str ''- [ ] '' @ [0x9605, 0x8BFB], str ''- [ ] '' @ [0x5199, 0x5468, 0x62A5]] @
     drop 4 NONE_LINES =
   [str ''## my '' @ [0x4ECA, 0x65E5, 0x91CD, 0x70B9, 0x4EFB, 0x52A1],
    str ''x'',
    str ''## notes'',
    str ''y'',
    str ''- [ ] '' @ [0x9605, 0x8BFB],
    str ''- [ ] '' @ [0x5199, 0x5468, 0x62A5]]"
  by (simp_all add: BOTH_LINES_def TEXT_LINES_def NONE_LINES_def)

text \<open>
  C7. The rolled tasks are put into tomorrow's lines \<open>old\<close> at the destination: right
  after the last line of the first section whose heading's title has the emoji as its
  first character, else of the first section whose title has the text as its first
  characters, else at the very end of the document; the destination is a position of the
  document, and with no such section the written lines are \<open>old\<close> followed by the
  tasks. In the scenario tomorrow's file is absent: it is written as the template with
  \<^verbatim>\<open>- [ ] ...\<close> lines for the first and the third task at lines 9 and 10, inside its
  priority section, which is opened by line 4 and then lasts to line 10; \<open>moved\<close> is 2.
\<close>

theorem rollover_destination:
  assumes "path_info e path_arg files = (p, True)" and "load_file_lines files p = Inr lines"
    and "new_path = daily_path (DAILY_ROOT e) (tomorrow e)"
    and "files1 = (if path_exists files new_path then files
                   else save_file_lines new_path (splitlines FALLBACK_TEMPLATE) files)"
    and "load_file_lines files1 new_path = Inr old"
  shows "rollover_incomplete e path_arg files =
           Inr (Moved (length (tasks_to_move lines)) new_path,
                save_file_lines new_path
                  (take (destination old) old @ map todo_line (tasks_to_move lines) @
                   drop (destination old) old) files1) \<and>
         destination old \<le> length old \<and>
         (first_titled old [0x1F3AF] = None \<and>
          first_titled old [0x4ECA, 0x65E5, 0x91CD, 0x70B9, 0x4EFB, 0x52A1] = None \<longrightarrow>
            take (destination old) old @ map todo_line (tasks_to_move lines) @
              drop (destination old) old =
            old @ map todo_line (tasks_to_move lines)) \<and>
         rollover_incomplete E0 None [(TODAY0, SCENARIO_DOC)] =
           Inr (Moved 2 TOMORROW0,
                [(TOMORROW0, join_nl SCENARIO_RESULT @ [0x0A]), (TODAY0, SCENARIO_DOC)]) \<and>
         SCENARIO_RESULT ! 9 = str ''- [ ] '' @ [0x9605, 0x8BFB] \<and>
         SCENARIO_RESULT ! 10 = str ''- [ ] '' @ [0x5199, 0x5468, 0x62A5] \<and>
         first_titled SCENARIO_RESULT [0x1F3AF] = Some 4 \<and>
         section_last SCENARIO_RESULT 4 = 10 \<and>
         section_range SCENARIO_RESULT TARGET_EMOJI = Some (4, 10)"
proof -
  have k: "nat (rollover_insert_at old) = destination old"
    by (simp add: rollover_insert_at_destination)
  have run: "rollover_incomplete e path_arg files =
           Inr (Moved (length (tasks_to_move lines)) new_path,
                save_file_lines new_path
                  (take (destination old) old @ map todo_line (tasks_to_move lines) @
                   drop (destination old) old) files1)"
    using rollover_incomplete_eq [OF assms] by (simp only: k)
  have none: "first_titled old [0x1F3AF] = None \<and>
          first_titled old [0x4ECA, 0x65E5, 0x91CD, 0x70B9, 0x4EFB, 0x52A1] = None \<longrightarrow>
            take (destination old) old @ map todo_line (tasks_to_move lines) @
              drop (destination old) old =
            old @ map todo_line (tasks_to_move lines)"
    by (simp add: destination_none)
  show ?thesis
    by (intro conjI run destination_bound none scenario_run scenario_lines_9_10
        scenario_first_titled scenario_section)
qed

theorem rollover_destination_witness:
  "path_info E0 None [(TODAY0, SCENARIO_DOC)] = (TODAY0, True) \<and>
   load_file_lines [(TODAY0, SCENARIO_DOC)] TODAY0 = Inr SCENARIO_LINES \<and>
   TOMORROW0 = daily_path (DAILY_ROOT E0) (tomorrow E0) \<and>
   load_file_lines
     (if path_exists [(TODAY0, SCENARIO_DOC)] TOMORROW0 then [(TODAY0, SCENARIO_DOC)]
      else save_file_lines TOMORROW0 (splitlines FALLBACK_TEMPLATE) [(TODAY0, SCENARIO_DOC)])
     TOMORROW0 = Inr TEMPLATE_LINES \<and>
   rollover_incomplete E0 None [(TODAY0, SCENARIO_DOC)] =
     Inr (Moved 2 TOMORROW0,
          save_file_lines TOMORROW0
            (take 9 TEMPLATE_LINES @
             [str ''- [ ] '' @ [0x9605, 0x8BFB], str ''- [ ] '' @ [0x5199, 0x5468, 0x62A5]] @
             drop 9 TEMPLATE_LINES)
            (if path_exists [(TODAY0, SCENARIO_DOC)] TOMORROW0 then [(TODAY0, SCENARIO_DOC)]
             else save_file_lines TOMORROW0 (splitlines FALLBACK_TEMPLATE)
                    [(TODAY0, SCENARIO_DOC)])) \<and>
   rollover_incomplete E0 None [(TODAY0, SCENARIO_DOC), (TOMORROW0, BOTH_DOC)] =
     Inr (Moved 2 TOMORROW0,
          [(TOMORROW0,
            join_nl
              [str ''# plan'',
               str ''## '' @ [0x4ECA, 0x65E5, 0x91CD, 0x70B9, 0x4EFB, 0x52A1],
               str ''- [ ] t'',
               str ''## '' @ [0x1F3AF] @ str '' goals'',
               str ''- [ ] g'',
               str ''- [ ] '' @ [0x9605, 0x8BFB],
               str ''- [ ] '' @ [0x5199, 0x5468, 0x62A5],
               str ''## notes'',
               str ''n''] @ [0x0A]),
           (TODAY0, SCENARIO_DOC)]) \<and>
   rollover_incomplete E0 None [(TODAY0, SCENARIO_DOC), (TOMORROW0, TEXT_DOC)] =
     Inr (Moved 2 TOMORROW0,
          [(TOMORROW0,
            join_nl
              [str ''## my '' @ [0x1F3AF],
               str ''x'',
               str ''## '' @ [0x4ECA, 0x65E5, 0x91CD, 0x70B9, 0x4EFB, 0x52A1] @ str '' now'',
               str ''- [ ] t'',
               str ''- [ ] '' @ [0x9605, 0x8BFB],
               str ''- [ ] '' @ [0x5199, 0x5468, 0x62A5],
               str ''## notes''] @ [0x0A]),
           (TODAY0, SCENARIO_DOC)]) \<and>
   rollover_incomplete E0 None [(TODAY0, SCENARIO_DOC), (TOMORROW0, NONE_DOC)] =
     Inr (Moved 2 TOMORROW0,
          [(TOMORROW0,
            join_nl
              [str ''## my '' @ [0x4ECA, 0x65E5, 0x91CD, 0x70B9, 0x4EFB, 0x52A1],
               str ''x'',
               str ''## notes'',
               str ''y'',
               str ''- [ ] '' @ [0x9605, 0x8BFB],
               str ''- [ ] '' @ [0x5199, 0x5468, 0x62A5]] @ [0x0A]),
           (TODAY0, SCENARIO_DOC)])"
proof -
  note t0 = rollover_destination [OF path_info_today_SCENARIO load_SCENARIO
      tomorrow_path_E0 [symmetric] refl load_tomorrow_SCENARIO]
  have r0: "rollover_incomplete E0 None [(TODAY0, SCENARIO_DOC)] =
     Inr (Moved 2 TOMORROW0,
          save_file_lines TOMORROW0
            (take 9 TEMPLATE_LINES @
             [str ''- [ ] '' @ [0x9605, 0x8BFB], str ''- [ ] '' @ [0x5199, 0x5468, 0x62A5]] @
             drop 9 TEMPLATE_LINES)
            (if path_exists [(TODAY0, SCENARIO_DOC)] TOMORROW0 then [(TODAY0, SCENARIO_DOC)]
             else save_file_lines TOMORROW0 (splitlines FALLBACK_TEMPLATE)
                    [(TODAY0, SCENARIO_DOC)]))"
    using conjunct1 [OF t0] by (simp only: destination_examples rolled_SCENARIO)
  note b = tomorrow_lines_clean(1)
  note tb = rollover_destination [OF
      existing_tomorrow(1) [OF conjunct1 [OF b] conjunct2 [OF b] BOTH_DOC_def]
      existing_tomorrow(2) [OF conjunct1 [OF b] conjunct2 [OF b] BOTH_DOC_def]
      tomorrow_path_E0 [symmetric] refl
      existing_tomorrow(3) [OF conjunct1 [OF b] conjunct2 [OF b] BOTH_DOC_def]]
  have rb: "rollover_incomplete E0 None [(TODAY0, SCENARIO_DOC), (TOMORROW0, BOTH_DOC)] =
     Inr (Moved 2 TOMORROW0,
          [(TOMORROW0,
            join_nl
              [str ''# plan'',
               str ''## '' @ [0x4ECA, 0x65E5, 0x91CD, 0x70B9, 0x4EFB, 0x52A1],
               str ''- [ ] t'',
               str ''## '' @ [0x1F3AF] @ str '' goals'',
               str ''- [ ] g'',
               str ''- [ ] '' @ [0x9605, 0x8BFB],
               str ''- [ ] '' @ [0x5199, 0x5468, 0x62A5],
               str ''## notes'',
               str ''n''] @ [0x0A]),
           (TODAY0, SCENARIO_DOC)])"
    using conjunct1 [OF tb]
    by (simp only: destination_examples rolled_SCENARIO tomorrow_results existing_saved)
  note x = tomorrow_lines_clean(2)
  note tx = rollover_destination [OF
      existing_tomorrow(1) [OF conjunct1 [OF x] conjunct2 [OF x] TEXT_DOC_def]
      existing_tomorrow(2) [OF conjunct1 [OF x] conjunct2 [OF x] TEXT_DOC_def]
      tomorrow_path_E0 [symmetric] refl
      existing_tomorrow(3) [OF conjunct1 [OF x] conjunct2 [OF x] TEXT_DOC_def]]
  have rx: "rollover_incomplete E0 None [(TODAY0, SCENARIO_DOC), (TOMORROW0, TEXT_DOC)] =
     Inr (Moved 2 TOMORROW0,
          [(TOMORROW0,
            join_nl
              [str ''## my '' @ [0x1F3AF],
               str ''x'',
               str ''## '' @ [0x4ECA, 0x65E5, 0x91CD, 0x70B9, 0x4EFB, 0x52A1] @ str '' now'',
               str ''- [ ] t'',
               str ''- [ ] '' @ [0x9605, 0x8BFB],
               str ''- [ ] '' @ [0x5199, 0x5468, 0x62A5],
               str ''## notes''] @ [0x0A]),
           (TODAY0, SCENARIO_DOC)])"
    using conjunct1 [OF tx]
    by (simp only: destination_examples rolled_SCENARIO tomorrow_results existing_saved)
  note n = tomorrow_lines_clean(3)
  note tn = rollover_destination [OF
      existing_tomorrow(1) [OF conjunct1 [OF n] conjunct2 [OF n] NONE_DOC_def]
      existing_tomorrow(2) [OF conjunct1 [OF n] conjunct2 [OF n] NONE_DOC_def]
      tomorrow_path_E0 [symmetric] refl
      existing_tomorrow(3) [OF conjunct1 [OF n] conjunct2 [OF n] NONE_DOC_def]]
  have rn: "rollover_incomplete E0 None [(TODAY0, SCENARIO_DOC), (TOMORROW0, NONE_DOC)] =
     Inr (Moved 2 TOMORROW0,
          [(TOMORROW0,
            join_nl
              [str ''## my '' @ [0x4ECA, 0x65E5, 0x91CD, 0x70B9, 0x4EFB, 0x52A1],
               str ''x'',
               str ''## notes'',
               str ''y'',
               str ''- [ ] '' @ [0x9605, 0x8BFB],
               str ''- [ ] '' @ [0x5199, 0x5468, 0x62A5]] @ [0x0A]),
           (TODAY0, SCENARIO_DOC)])"
    using conjunct1 [OF tn]
    by (simp only: destination_examples rolled_SCENARIO tomorrow_results existing_saved)
  show ?thesis
    by (intro conjI path_info_today_SCENARIO load_SCENARIO tomorrow_path_E0 [symmetric]
        load_tomorrow_SCENARIO r0 rb rx rn)
qed

end
